theory Spec2Isabelle
  imports Main
begin

section \<open>Text\<close>

text \<open>
  A Python \<open>str\<close> is modelled as a \<^typ>\<open>string\<close> holding its UTF-8 bytes. The two
  code points outside ASCII that the source names, the en dash (U+2013) and the
  typographic apostrophe (U+2019), are the three-byte sequences below. UTF-8 is
  self-synchronising, so replacing one well-formed sequence by another on the bytes is
  the replacement on the code points.
\<close>

definition backslash :: char where
  "backslash = CHR 0x5C"

definition apostrophe :: char where
  "apostrophe = CHR 0x27"

definition en_dash :: string where
  "en_dash = [CHR 0xE2, CHR 0x80, CHR 0x93]"

definition typographic_apostrophe :: string where
  "typographic_apostrophe = [CHR 0xE2, CHR 0x80, CHR 0x99]"

text \<open>
  \<open>s.replace(old, new)\<close>: the occurrences of \<open>old\<close> are found from the left and do not
  overlap. With an empty \<open>old\<close> Python puts \<open>new\<close> before every character and at the end.
\<close>

function str_replace :: "'a list \<Rightarrow> 'a list \<Rightarrow> 'a list \<Rightarrow> 'a list" where
  "str_replace old new [] = (if old = [] then new else [])"
| "str_replace old new (c # cs) =
     (if old = [] then new @ c # str_replace old new cs
      else if take (length old) (c # cs) = old
        then new @ str_replace old new (drop (length old) (c # cs))
      else c # str_replace old new cs)"
  by pat_completeness auto
termination
  by (relation "measure (\<lambda>(old, new, s). length s)") (auto simp: Suc_le_eq)

text \<open>
  \<open>s.upper()\<close> on the ASCII letters. Python also maps cased letters outside ASCII; their
  bytes are carried unchanged here, so the model is exact on titles whose cased letters
  are ASCII.
\<close>

definition upper_char :: "char \<Rightarrow> char" where
  "upper_char c =
     (if (97::nat) \<le> of_char c \<and> of_char c \<le> (122::nat)
      then char_of (of_char c - (32::nat)) else c)"

definition upper :: "string \<Rightarrow> string" where
  "upper s = map upper_char s"

subsection \<open>utils.upperescape\<close>

text \<open>
  The steps in the order of the source. The call \<open>re.sub("S\\\\", "([']?)S\\\\", string)\<close>
  has a pattern without metacharacters (an \<open>S\<close> followed by a backslash) and a
  replacement template whose only escape is the doubled backslash, so it is the literal
  replacement of \<open>S\<close>-backslash below.
\<close>

definition upperescape :: "string \<Rightarrow> string" where
  "upperescape string0 =
     (let string = upper string0;
          string = str_replace en_dash ''-'' string;
          string = str_replace ''('' [backslash, CHR ''(''] string;
          string = str_replace '')'' [backslash, CHR '')''] string;
          string = str_replace '':'' ''([:]?)'' string;
          string = str_replace [apostrophe]
                     (''(['' @ [apostrophe] @ typographic_apostrophe @ '']?)'') string;
          string = str_replace '','' ''([,]?)'' string;
          string = str_replace ''!'' ''([!]?)'' string;
          string = str_replace [backslash, CHR ''?'']
                     (''(['' @ [backslash] @ ''?]?)'') string;
          string = str_replace [backslash, CHR ''.'']
                     (''(['' @ [backslash] @ ''.]?)'') string;
          string = str_replace ([backslash] @ '' AND'' @ [backslash] @ '' '')
                     ([backslash] @ '' (AND|&)'' @ [backslash] @ '' '') string;
          string = str_replace ''-'' (''([-'' @ en_dash @ '']??)'') string;
          string = str_replace [CHR ''S'', backslash]
                     (''(['' @ [apostrophe] @ '']?)S'' @ [backslash]) string;
          string = str_replace '' '' ([backslash] @ ''s*'') string
      in string)"

section \<open>Time\<close>

text \<open>
  A \<open>datetime\<close> is the number of microseconds from a fixed origin, a \<open>timedelta\<close> a
  number of microseconds. Python bounds both (years 1 to 9999); the arithmetic here is
  unbounded, the overflow being outside what the specification covers.
\<close>

type_synonym datetime = int

definition timedelta :: "int \<Rightarrow> int \<Rightarrow> int \<Rightarrow> int \<Rightarrow> int" where
  "timedelta weeks days hours minutes =
     weeks * 604800000000 + days * 86400000000 + hours * 3600000000 + minutes * 60000000"

text \<open>
  The offset of a series in \<open>config.yml\<close>: a dictionary of which the source reads the
  four keys below. A field is \<open>None\<close> when the key is absent, otherwise the value
  \<open>int(offset[key])\<close>.
\<close>

record offset =
  weeks :: "int option"
  days :: "int option"
  hours :: "int option"
  minutes :: "int option"

subsection \<open>utils.offsethandler\<close>

definition offsethandler :: "datetime \<Rightarrow> offset \<Rightarrow> datetime" where
  "offsethandler airdate offset =
     (let weeks0 = (case weeks offset of None \<Rightarrow> 0 | Some w \<Rightarrow> w);
          days0 = (case days offset of None \<Rightarrow> 0 | Some d \<Rightarrow> d);
          hours0 = (case hours offset of None \<Rightarrow> 0 | Some h \<Rightarrow> h);
          minutes0 = (case minutes offset of None \<Rightarrow> 0 | Some m \<Rightarrow> m)
      in airdate + timedelta weeks0 days0 hours0 minutes0)"

section \<open>Numbers in text\<close>

text \<open>\<open>str(n)\<close> of an integer, and the format specification \<open>02d\<close>.\<close>

definition digit_char :: "nat \<Rightarrow> char" where
  "digit_char d = char_of (48 + d)"

fun str_nat :: "nat \<Rightarrow> string" where
  "str_nat n = (if n < 10 then [digit_char n] else str_nat (n div 10) @ [digit_char (n mod 10)])"

declare str_nat.simps [simp del]

definition str_int :: "int \<Rightarrow> string" where
  "str_int i = (if i < 0 then CHR ''-'' # str_nat (nat (- i)) else str_nat (nat i))"

definition format_02d :: "int \<Rightarrow> string" where
  "format_02d i = (let s = str_int i in replicate (2 - length s) (CHR ''0'') @ s)"

section \<open>Data\<close>

text \<open>
  Exceptions are values. \<open>Raised\<close> is an exception of an external collaborator (the
  media manager's API, the regular expression engine, the extraction library).
\<close>

datatype error = KeyError | ValueError | TypeError | AttributeError | Raised string

text \<open>
  The options handed to the extraction library are a dictionary from option names to
  values; insertion order is kept, as in Python, by an association list.
\<close>

datatype hook = Ytdl_hooks | Ytdl_hooks_debug

datatype optval =
    OBool bool
  | OStr string
  | OList "string list"
  | OHooks "hook list"
  | OLogger
  | OPostprocessors "(string \<times> string) list list"

type_synonym ytdlopts = "(string \<times> optval) list"

fun dict_update :: "'k \<Rightarrow> 'v \<Rightarrow> ('k \<times> 'v) list \<Rightarrow> ('k \<times> 'v) list" where
  "dict_update k v [] = [(k, v)]"
| "dict_update k v ((k', v') # kvs) =
     (if k' = k then (k, v) # kvs else (k', v') # dict_update k v kvs)"

text \<open>
  The log: one entry per call of the logger, with its level. \<open>EXCEPTION\<close> is
  \<open>logger.exception\<close>, the level ERROR with the traceback attached.
\<close>

datatype level = DEBUG | INFO | WARNING | ERROR | EXCEPTION

datatype msg = Text string | Dict ytdlopts

type_synonym log = "(level \<times> msg) list"

text \<open>
  A series dictionary: the keys \<open>id\<close>, \<open>title\<close>, \<open>monitored\<close> and \<open>path\<close> come from the
  media manager, the others are written by \<open>filterseries\<close>. A key whose presence the
  source tests is an option.
\<close>

record series =
  s_id :: int
  s_title :: string
  s_monitored :: bool
  s_path :: string
  s_subtitles :: bool
  s_playlistreverse :: bool
  s_subtitles_languages :: "string list"
  s_subtitles_autogenerated :: bool
  s_sonarr_regex :: "(string \<times> string) option"
  s_site_regex :: "(string \<times> string) option"
  s_offset :: "offset option"
  s_cookies_file :: "string option"
  s_format :: "string option"
  s_url :: string
  s_preprend_with_title :: bool

text \<open>An entry of the \<open>series\<close> list of \<open>config.yml\<close>.\<close>

datatype yaml = YBool bool | YStr string

record wanted_regex =
  r_sonarr :: "(string \<times> string) option"
  r_site :: "(string \<times> string) option"

record wanted_subtitles =
  languages :: "string list option"
  autogenerated :: "bool option"

record wanted =
  w_title :: string
  w_url :: string
  w_regex :: "wanted_regex option"
  w_offset :: "offset option"
  w_cookies_file :: "string option"
  w_format :: "string option"
  w_playlistreverse :: "yaml option"
  w_subtitles :: "wanted_subtitles option"
  w_preprend_with_title :: bool

text \<open>
  An episode dictionary of the media manager. \<open>e_airDateUtc\<close> is the instant that the
  string under \<open>airDateUtc\<close> denotes in \<open>date_format\<close>, \<open>None\<close> when the key is absent.
\<close>

record episode =
  e_id :: int
  e_seriesId :: int
  e_title :: string
  e_seasonNumber :: int
  e_episodeNumber :: int
  e_airDateUtc :: "datetime option"
  e_monitored :: bool
  e_hasFile :: bool

text \<open>
  What \<open>extract_info\<close> returns: a dictionary with an optional list \<open>entries\<close>, each entry
  \<open>None\<close> or a dictionary, and an optional \<open>webpage_url\<close>. A dictionary entry is kept as
  what \<open>.get("webpage_url")\<close> gives on it.
\<close>

record info =
  entries :: "string option option list option"
  webpage_url :: "string option"

text \<open>The dictionary that the extraction library passes to a progress hook.\<close>

datatype status = Finished string | Downloading string string string | Other_status

text \<open>
  The configuration of the client, the module constants and the external collaborators.
  \<open>now\<close> is the module-level \<open>datetime.now()\<close>. A collaborator that can raise returns a
  sum, and is a function of its arguments: within a pass the same question has the same
  answer. \<open>ydl_download\<close> gives the progress events of the transfer and the exception
  that ended it, if any; \<open>rescanseries\<close> gives the exception of the rescan request, if
  any.
\<close>

record env =
  debug :: bool
  ytdl_format :: string
  ytdl_merge_output_format :: string
  CONFIGPATH :: string
  now :: datetime
  abspath :: "string \<Rightarrow> string"
  path_exists :: "string \<Rightarrow> bool"
  basename :: "string \<Rightarrow> string"
  get_episodes_by_series_id :: "int \<Rightarrow> error + episode list"
  re_sub :: "string \<Rightarrow> string \<Rightarrow> string \<Rightarrow> error + string"
  extract_info :: "ytdlopts \<Rightarrow> string \<Rightarrow> error + info option"
  ydl_download :: "ytdlopts \<Rightarrow> string \<Rightarrow> status list \<times> error option"
  rescanseries :: "int \<Rightarrow> error option"

section \<open>SonarrYTDL.filterseries\<close>

text \<open>The body of the test \<open>wnt["title"] == ser["title"]\<close>: the defaults, then the updates.\<close>

definition update_values :: "wanted \<Rightarrow> series \<Rightarrow> series" where
  "update_values wnt ser0 =
     (let ser = ser0\<lparr>s_subtitles := False, s_playlistreverse := True,
                     s_subtitles_languages := [''en''], s_subtitles_autogenerated := False\<rparr>;
          ser = (case w_regex wnt of None \<Rightarrow> ser
                 | Some regex \<Rightarrow>
                     (let ser = (case r_sonarr regex of None \<Rightarrow> ser
                                 | Some mr \<Rightarrow> ser\<lparr>s_sonarr_regex := Some mr\<rparr>)
                      in (case r_site regex of None \<Rightarrow> ser
                          | Some mr \<Rightarrow> ser\<lparr>s_site_regex := Some mr\<rparr>)));
          ser = (case w_offset wnt of None \<Rightarrow> ser | Some off \<Rightarrow> ser\<lparr>s_offset := Some off\<rparr>);
          ser = (case w_cookies_file wnt of None \<Rightarrow> ser
                 | Some c \<Rightarrow> ser\<lparr>s_cookies_file := Some c\<rparr>);
          ser = (case w_format wnt of None \<Rightarrow> ser | Some f \<Rightarrow> ser\<lparr>s_format := Some f\<rparr>);
          ser = (if w_playlistreverse wnt = Some (YStr ''False'')
                 then ser\<lparr>s_playlistreverse := False\<rparr> else ser);
          ser = (case w_subtitles wnt of None \<Rightarrow> ser
                 | Some subs \<Rightarrow>
                     (let ser = ser\<lparr>s_subtitles := True\<rparr>;
                          ser = (case languages subs of None \<Rightarrow> ser
                                 | Some l \<Rightarrow> ser\<lparr>s_subtitles_languages := l\<rparr>)
                      in (case autogenerated subs of None \<Rightarrow> ser
                          | Some a \<Rightarrow> ser\<lparr>s_subtitles_autogenerated := a\<rparr>)));
          ser = ser\<lparr>s_url := w_url wnt\<rparr>;
          ser = ser\<lparr>s_preprend_with_title := w_preprend_with_title wnt\<rparr>
      in ser)"

text \<open>
  The source updates the dictionary \<open>ser\<close> in place and appends that same object to
  \<open>matched\<close> once per configured entry of its title. So the series objects live in a
  store, a list indexed by references, and \<open>matched\<close> is a list of references.
\<close>

fun wnt_loop :: "wanted list \<Rightarrow> nat \<Rightarrow> series list \<Rightarrow> nat list \<Rightarrow> series list \<times> nat list" where
  "wnt_loop [] i heap matched = (heap, matched)"
| "wnt_loop (wnt # wnts) i heap matched =
     (if w_title wnt = s_title (heap ! i)
      then wnt_loop wnts i (heap[i := update_values wnt (heap ! i)]) (matched @ [i])
      else wnt_loop wnts i heap matched)"

fun ser_loop :: "wanted list \<Rightarrow> nat list \<Rightarrow> series list \<Rightarrow> nat list \<Rightarrow> series list \<times> nat list" where
  "ser_loop wanted [] heap matched = (heap, matched)"
| "ser_loop wanted (i # refs) heap matched =
     (case wnt_loop wanted i heap matched of
        (heap', matched') \<Rightarrow> ser_loop wanted refs heap' matched')"

text \<open>
  \<open>series\<close> is what \<open>get_series\<close> returned, \<open>wanted\<close> is \<open>self.series\<close>. The warning names
  \<open>ser\<close>, the variable of the first loop, which is then the last series of the listing.
\<close>

definition filterseries :: "series list \<Rightarrow> wanted list \<Rightarrow> series list \<times> log" where
  "filterseries series wanted =
     (case ser_loop wanted [0..<length series] series [] of
        (heap, refs) \<Rightarrow>
          (let matched = map (\<lambda>i. heap ! i) refs;
               lg = map (\<lambda>check. (WARNING,
                           Text (s_title (heap ! (length series - 1)) @ '' is not currently monitored'')))
                      (filter (\<lambda>check. \<not> s_monitored check) matched)
           in (matched, lg)))"

section \<open>SonarrYTDL.getseriesepisodes\<close>

text \<open>
  \<open>xs.remove(x)\<close> takes out the first element equal to \<open>x\<close> and raises ValueError when
  there is none (\<open>None\<close> here). \<open>remove_ref\<close> is the same on a list of references into a
  store: Python compares the dictionaries by value.
\<close>

fun list_remove :: "'a \<Rightarrow> 'a list \<Rightarrow> 'a list option" where
  "list_remove x [] = None"
| "list_remove x (y # ys) = (if y = x then Some ys else map_option ((#) y) (list_remove x ys))"

fun remove_ref :: "'a list \<Rightarrow> 'a \<Rightarrow> nat list \<Rightarrow> nat list option" where
  "remove_ref heap x [] = None"
| "remove_ref heap x (j # js) =
     (if heap ! j = x then Some js else map_option ((#) j) (remove_ref heap x js))"

text \<open>The date that is compared with \<open>now\<close>.\<close>

definition eps_date :: "env \<Rightarrow> series \<Rightarrow> episode \<Rightarrow> datetime" where
  "eps_date env ser eps =
     (case e_airDateUtc eps of
        None \<Rightarrow> now env
      | Some d \<Rightarrow> (case s_offset ser of None \<Rightarrow> d | Some off \<Rightarrow> offsethandler d off))"

text \<open>
  The loop over \<open>episodes[:]\<close>. The copy and the list \<open>episodes\<close> hold the same episode
  objects, and the title of a needed episode is rewritten in place; so the episodes live
  in a store, \<open>refs\<close> are the references still to visit and \<open>episodes\<close> the references
  left in the list.
\<close>

fun eps_loop ::
  "env \<Rightarrow> series \<Rightarrow> nat list \<Rightarrow> episode list \<Rightarrow> nat list \<Rightarrow> episode list
     \<Rightarrow> error + (episode list \<times> nat list \<times> episode list)" where
  "eps_loop env ser [] heap episodes needed = Inr (heap, episodes, needed)"
| "eps_loop env ser (i # refs) heap episodes needed =
     (let eps = heap ! i
      in if \<not> e_monitored eps \<or> e_hasFile eps \<or> eps_date env ser eps > now env
         then (case remove_ref heap eps episodes of
                 None \<Rightarrow> Inl ValueError
               | Some episodes' \<Rightarrow> eps_loop env ser refs heap episodes' needed)
         else (case s_sonarr_regex ser of
                 None \<Rightarrow> eps_loop env ser refs heap episodes (needed @ [eps])
               | Some (match, replace) \<Rightarrow>
                   (case re_sub env match replace (e_title eps) of
                      Inl err \<Rightarrow> Inl err
                    | Inr t \<Rightarrow>
                        eps_loop env ser refs (heap[i := eps\<lparr>e_title := t\<rparr>]) episodes
                          (needed @ [eps\<lparr>e_title := t\<rparr>]))))"

text \<open>
  The loop over \<open>series[:]\<close>; the series dictionaries are not changed here, so the list
  \<open>series\<close> is a list of values. The result is \<open>needed\<close>, the list \<open>series\<close> as the caller
  sees it afterwards, and the log.
\<close>

fun series_loop ::
  "env \<Rightarrow> series list \<Rightarrow> series list \<Rightarrow> episode list \<Rightarrow> log
     \<Rightarrow> error + (episode list \<times> series list \<times> log)" where
  "series_loop env [] series needed lg = Inr (needed, series, lg)"
| "series_loop env (ser # rest) series needed lg =
     (case get_episodes_by_series_id env (s_id ser) of
        Inl err \<Rightarrow> Inl err
      | Inr fetched \<Rightarrow>
          (case eps_loop env ser [0..<length fetched] fetched [0..<length fetched] needed of
             Inl err \<Rightarrow> Inl err
           | Inr (heap, refs, needed') \<Rightarrow>
               (let episodes = map (\<lambda>i. heap ! i) refs
                in if length episodes = 0
                   then (case list_remove ser series of
                           None \<Rightarrow> Inl ValueError
                         | Some series' \<Rightarrow>
                             series_loop env rest series' needed'
                               (lg @ [(INFO, Text (s_title ser @ '' no episodes needed''))]))
                   else series_loop env rest series needed'
                          (lg @ [(INFO, Text (s_title ser @ '' missing ''
                                    @ str_nat (length episodes) @ '' episodes''))]
                              @ map (\<lambda>(i, e). (INFO, Text (''  '' @ str_nat (i + 1) @ '': ''
                                      @ s_title ser @ '' - '' @ e_title e)))
                                  (enumerate 0 episodes)))))"

definition getseriesepisodes ::
  "env \<Rightarrow> series list \<Rightarrow> error + (episode list \<times> series list \<times> log)" where
  "getseriesepisodes env series = series_loop env series series [] []"

section \<open>Options of the extraction library\<close>

subsection \<open>SonarrYTDL.appendcookie, SonarrYTDL.customformat\<close>

definition appendcookie :: "env \<Rightarrow> ytdlopts \<Rightarrow> string option \<Rightarrow> ytdlopts \<times> log" where
  "appendcookie env ytdlopts cookies =
     (case cookies of
        Some c \<Rightarrow>
          (let cookie_path = abspath env (CONFIGPATH env @ c);
               cookie_exists = path_exists env cookie_path
           in if cookie_exists
              then (dict_update ''cookiefile'' (OStr cookie_path) ytdlopts,
                    [(DEBUG, Text (''  Cookies file used: '' @ cookie_path))])
              else (ytdlopts, [(WARNING, Text ''  cookie files specified but doesnt exist.'')]))
      | None \<Rightarrow> (ytdlopts, []))"

definition customformat :: "ytdlopts \<Rightarrow> string option \<Rightarrow> ytdlopts" where
  "customformat ytdlopts customformat0 =
     (case customformat0 of
        Some f \<Rightarrow> dict_update ''format'' (OStr f) ytdlopts
      | None \<Rightarrow> ytdlopts)"

subsection \<open>SonarrYTDL.ytdl_eps_search_opts\<close>

definition ytdl_eps_search_opts ::
  "env \<Rightarrow> string \<Rightarrow> bool \<Rightarrow> string option \<Rightarrow> ytdlopts \<times> log" where
  "ytdl_eps_search_opts env regextitle playlistreverse cookies =
     (let ytdlopts = [(''ignoreerrors'', OBool True),
                      (''playlistreverse'', OBool playlistreverse),
                      (''matchtitle'', OStr regextitle),
                      (''quiet'', OBool True)];
          ytdlopts = (if debug env
                      then dict_update ''progress_hooks'' (OHooks [Ytdl_hooks])
                             (dict_update ''logger'' OLogger
                               (dict_update ''quiet'' (OBool False) ytdlopts))
                      else ytdlopts)
      in case appendcookie env ytdlopts cookies of
           (ytdlopts, lg) \<Rightarrow>
             (ytdlopts,
              lg @ (if debug env
                    then [(DEBUG, Text ''Youtube-DL opts used for episode matching''),
                          (DEBUG, Dict ytdlopts)]
                    else [])))"

section \<open>SonarrYTDL.ytsearch\<close>

text \<open>
  The result is what the method returns, or the exception that leaves it, and the log.
  A Python function whose body ends without \<open>return\<close> returns \<open>None\<close>: that is the
  value \<open>Inr None\<close>, and the pair \<open>(found, url)\<close> is \<open>Inr (Some (found, url))\<close>. The
  \<open>else\<close> part of the \<open>try\<close> is outside the handler, so the \<open>result.get\<close> on a result
  \<open>None\<close> raises AttributeError to the caller.
\<close>

definition ytsearch ::
  "env \<Rightarrow> ytdlopts \<Rightarrow> string \<Rightarrow> (error + (bool \<times> string) option) \<times> log" where
  "ytsearch env ydl_opts playlist =
     (case extract_info env ydl_opts playlist of
        Inl err \<Rightarrow> (Inr None, [(EXCEPTION, Text ''extract_info failed'')])
      | Inr None \<Rightarrow> (Inl AttributeError, [])
      | Inr (Some result) \<Rightarrow>
          (case (case entries result of
                   None \<Rightarrow> (webpage_url result, [])
                 | Some [] \<Rightarrow> (webpage_url result, [])
                 | Some (first # others) \<Rightarrow>
                     (if first # others \<noteq> [None]
                      then (case first of
                              Some entry \<Rightarrow> (entry, [])
                            | None \<Rightarrow> (None, [(EXCEPTION, Text ''error getting video_url'')]))
                      else (webpage_url result, []))) of
             (video_url, lg) \<Rightarrow>
               (if Some playlist = video_url then (Inr (Some (False, [])), lg)
                else (case video_url of
                        None \<Rightarrow> (Inr (Some (False, [])), lg @ [(ERROR, Text ''No video_url'')])
                      | Some u \<Rightarrow> (Inr (Some (True, u)), lg)))))"

section \<open>SonarrYTDL.download\<close>

subsection \<open>utils.ytdl_hooks, utils.ytdl_hooks_debug\<close>

fun ytdl_hooks :: "env \<Rightarrow> status \<Rightarrow> log" where
  "ytdl_hooks env (Finished filename) =
     [(INFO, Text (''      Downloaded - '' @ basename env (abspath env filename)))]"
| "ytdl_hooks env d = []"

fun ytdl_hooks_debug :: "env \<Rightarrow> status \<Rightarrow> log" where
  "ytdl_hooks_debug env (Finished filename) =
     [(INFO, Text (''      Done downloading '' @ basename env (abspath env filename)))]"
| "ytdl_hooks_debug env (Downloading filename percent_str eta_str) =
     [(DEBUG, Text (''      '' @ filename @ '' - '' @ percent_str @ '' - '' @ eta_str))]"
| "ytdl_hooks_debug env Other_status = []"

text \<open>The extraction library calls every hook under \<open>progress_hooks\<close> on every event.\<close>

fun run_hook :: "env \<Rightarrow> hook \<Rightarrow> status \<Rightarrow> log" where
  "run_hook env Ytdl_hooks d = ytdl_hooks env d"
| "run_hook env Ytdl_hooks_debug d = ytdl_hooks_debug env d"

definition progress_log :: "env \<Rightarrow> ytdlopts \<Rightarrow> status list \<Rightarrow> log" where
  "progress_log env ytdlopts events =
     (case map_of ytdlopts ''progress_hooks'' of
        Some (OHooks hooks) \<Rightarrow> concat (map (\<lambda>d. concat (map (\<lambda>h. run_hook env h d) hooks)) events)
      | _ \<Rightarrow> [])"

subsection \<open>The options of a download\<close>

text \<open>The value under \<open>outtmpl\<close>, lines 336 to 349.\<close>

definition outtmpl :: "series \<Rightarrow> episode \<Rightarrow> string" where
  "outtmpl ser eps =
     (let episode_title_no_colon = str_replace ''  '' '' '' (str_replace '':'' [] (e_title eps));
          ser_title_no_colon = str_replace '':'' [] (s_title ser)
      in ''/sonarr_root'' @ s_path ser @ ''/Season '' @ str_int (e_seasonNumber eps) @ ''/''
           @ ser_title_no_colon @ ''.S'' @ str_int (e_seasonNumber eps)
           @ ''E'' @ format_02d (e_episodeNumber eps) @ ''.'' @ episode_title_no_colon
           @ ''.%(ext)s'')"

text \<open>Lines 339 to 386: the dictionary \<open>ytdl_format_options\<close> and what is logged on the way.\<close>

definition ytdl_format_options :: "env \<Rightarrow> series \<Rightarrow> episode \<Rightarrow> string option \<Rightarrow> ytdlopts \<times> log" where
  "ytdl_format_options env ser eps cookies =
     (let opts = [(''format'', OStr (ytdl_format env)),
                  (''quiet'', OBool True),
                  (''merge_output_format'', OStr (ytdl_merge_output_format env)),
                  (''outtmpl'', OStr (outtmpl ser eps)),
                  (''progress_hooks'', OHooks [Ytdl_hooks]),
                  (''noplaylist'', OBool True)]
      in case appendcookie env opts cookies of
           (opts, lg) \<Rightarrow>
             (let opts = (case s_format ser of
                            Some f \<Rightarrow> customformat opts (Some f)
                          | None \<Rightarrow> opts);
                  postprocessors =
                    (if s_subtitles ser
                     then [[(''key'', ''FFmpegSubtitlesConvertor''), (''format'', ''srt'')],
                           [(''key'', ''FFmpegEmbedSubtitle'')]]
                     else []);
                  opts = (if s_subtitles ser
                          then dict_update ''embedsubtitles'' (OBool True)
                                 (dict_update ''subtitleslangs'' (OList (s_subtitles_languages ser))
                                   (dict_update ''writeautomaticsub'' (OBool True)
                                     (dict_update ''allsubtitles'' (OBool True)
                                       (dict_update ''writesubtitles'' (OBool True) opts))))
                          else opts);
                  opts = dict_update ''postprocessors'' (OPostprocessors postprocessors) opts
              in if debug env
                 then (let opts = dict_update ''progress_hooks'' (OHooks [Ytdl_hooks_debug])
                                    (dict_update ''logger'' OLogger
                                      (dict_update ''quiet'' (OBool False) opts))
                       in (opts, lg @ [(DEBUG, Text ''Youtube-DL opts used for downloading''),
                                       (DEBUG, Dict opts)]))
                 else (opts, lg)))"

subsection \<open>The body of the loop over the episodes\<close>

text \<open>
  Lines 321 to 394, for an episode of the series: the log, and the exception that leaves
  the method, if any. The assignment \<open>found, dlurl = self.ytsearch(...)\<close> raises
  TypeError when the method returned \<open>None\<close>. One \<open>try\<close> holds the download, the rescan
  and the line \<open>Downloaded\<close>; its handler logs \<open>Failed\<close>.
\<close>

definition eps_title_of :: "series \<Rightarrow> episode \<Rightarrow> string" where
  "eps_title_of ser eps =
     (if s_preprend_with_title ser then s_title ser @ '' - '' @ e_title eps else e_title eps)"

definition download_eps :: "env \<Rightarrow> series \<Rightarrow> nat \<Rightarrow> episode \<Rightarrow> log \<times> error option" where
  "download_eps env ser e eps =
     (let url = s_url ser;
          eps_title = eps_title_of ser eps;
          cookies = s_cookies_file ser
      in case ytdl_eps_search_opts env (upperescape eps_title) (s_playlistreverse ser) cookies of
           (ydleps, lg1) \<Rightarrow>
             (case ytsearch env ydleps url of
                (Inl err, lg2) \<Rightarrow> (lg1 @ lg2, Some err)
              | (Inr None, lg2) \<Rightarrow> (lg1 @ lg2, Some TypeError)
              | (Inr (Some (found, dlurl)), lg2) \<Rightarrow>
                  (if found
                   then (case ytdl_format_options env ser eps cookies of
                           (opts, lg3) \<Rightarrow>
                             (case ydl_download env opts dlurl of
                                (events, failure) \<Rightarrow>
                                  (let lg = lg1 @ lg2
                                         @ [(INFO, Text (''    '' @ str_nat (e + 1) @ '': Found - '' @ eps_title))]
                                         @ lg3 @ progress_log env opts events
                                   in (case failure of
                                         Some err \<Rightarrow>
                                           (lg @ [(EXCEPTION, Text (''      Failed - '' @ eps_title))], None)
                                       | None \<Rightarrow>
                                           (case rescanseries env (s_id ser) of
                                              Some err \<Rightarrow>
                                                (lg @ [(EXCEPTION, Text (''      Failed - '' @ eps_title))], None)
                                            | None \<Rightarrow>
                                                (lg @ [(INFO, Text (''      Downloaded - '' @ eps_title))], None))))))
                   else (lg1 @ lg2
                           @ [(INFO, Text (''    '' @ str_nat (e + 1) @ '': Missing - '' @ eps_title))],
                         None))))"

subsection \<open>The loops\<close>

fun episodes_loop :: "env \<Rightarrow> series \<Rightarrow> nat \<Rightarrow> episode list \<Rightarrow> log \<times> error option" where
  "episodes_loop env ser e [] = ([], None)"
| "episodes_loop env ser e (eps # rest) =
     (if s_id ser = e_seriesId eps
      then (case download_eps env ser e eps of
              (lg, Some err) \<Rightarrow> (lg, Some err)
            | (lg, None) \<Rightarrow>
                (case episodes_loop env ser (e + 1) rest of (lg', r) \<Rightarrow> (lg @ lg', r)))
      else episodes_loop env ser (e + 1) rest)"

fun download_loop :: "env \<Rightarrow> series list \<Rightarrow> episode list \<Rightarrow> log \<times> error option" where
  "download_loop env [] episodes = ([], None)"
| "download_loop env (ser # rest) episodes =
     (case episodes_loop env ser 0 episodes of
        (lg, Some err) \<Rightarrow> ((INFO, Text (''  '' @ s_title ser @ '':'')) # lg, Some err)
      | (lg, None) \<Rightarrow>
          (case download_loop env rest episodes of
             (lg', r) \<Rightarrow> ((INFO, Text (''  '' @ s_title ser @ '':'')) # lg @ lg', r)))"

definition download :: "env \<Rightarrow> series list \<Rightarrow> episode list \<Rightarrow> log \<times> error option" where
  "download env series episodes =
     (if length series \<noteq> 0
      then (case download_loop env series episodes of
              (lg, r) \<Rightarrow> ((INFO, Text ''Processing Wanted Downloads'') # lg, r))
      else ([(INFO, Text ''Nothing to process'')], None))"

section \<open>main\<close>

text \<open>
  One pass: \<open>series\<close> is what \<open>get_series\<close> returned and \<open>wanted\<close> is \<open>self.series\<close>. The
  list that \<open>getseriesepisodes\<close> has changed in place is the one handed to \<open>download\<close>.
\<close>

definition main :: "env \<Rightarrow> series list \<Rightarrow> wanted list \<Rightarrow> log \<times> error option" where
  "main env series wanted =
     (case filterseries series wanted of
        (series, lg1) \<Rightarrow>
          (case getseriesepisodes env series of
             Inl err \<Rightarrow> (lg1, Some err)
           | Inr (episodes, series, lg2) \<Rightarrow>
               (case download env series episodes of
                  (lg3, Some err) \<Rightarrow> (lg1 @ lg2 @ lg3, Some err)
                | (lg3, None) \<Rightarrow> (lg1 @ lg2 @ lg3 @ [(INFO, Text ''Waiting...'')], None))))"

section \<open>Predicates for the statements\<close>

text \<open>\<open>pat in s\<close> on strings: \<open>pat\<close> occurs in \<open>s\<close> as a contiguous run.\<close>

fun contains :: "'a list \<Rightarrow> 'a list \<Rightarrow> bool" where
  "contains pat [] = (pat = [])"
| "contains pat (c # cs) = (take (length pat) (c # cs) = pat \<or> contains pat cs)"

text \<open>An offset dictionary reduced to one of its keys.\<close>

definition no_offset :: offset where
  "no_offset = \<lparr>weeks = None, days = None, hours = None, minutes = None\<rparr>"

definition only_weeks :: "offset \<Rightarrow> offset" where
  "only_weeks off = no_offset\<lparr>weeks := weeks off\<rparr>"

definition only_days :: "offset \<Rightarrow> offset" where
  "only_days off = no_offset\<lparr>days := days off\<rparr>"

definition only_hours :: "offset \<Rightarrow> offset" where
  "only_hours off = no_offset\<lparr>hours := hours off\<rparr>"

definition only_minutes :: "offset \<Rightarrow> offset" where
  "only_minutes off = no_offset\<lparr>minutes := minutes off\<rparr>"

text \<open>What a key of an offset dictionary contributes: nothing when it is absent.\<close>

definition field :: "int option \<Rightarrow> int" where
  "field v = (case v of None \<Rightarrow> 0 | Some n \<Rightarrow> n)"

section \<open>The need filter as a function of the listings\<close>

text \<open>
  What the two loops of \<open>getseriesepisodes\<close> are proved to compute. \<open>excluded\<close> is the test
  of the source on one episode, \<open>rewritten\<close> its title rewrite, \<open>needed_of\<close> the needed
  episodes of one series in the order of the listing, and \<open>pass_result\<close> the needed
  episodes, the series kept and the log of a whole list of series. The first exception
  met in that order is the result.
\<close>

definition excluded :: "env \<Rightarrow> series \<Rightarrow> episode \<Rightarrow> bool" where
  "excluded env ser eps = (\<not> e_monitored eps \<or> e_hasFile eps \<or> eps_date env ser eps > now env)"

definition rewritten :: "env \<Rightarrow> series \<Rightarrow> episode \<Rightarrow> error + episode" where
  "rewritten env ser eps =
     (case s_sonarr_regex ser of
        None \<Rightarrow> Inr eps
      | Some (match, replace) \<Rightarrow>
          (case re_sub env match replace (e_title eps) of
             Inl err \<Rightarrow> Inl err
           | Inr t \<Rightarrow> Inr (eps\<lparr>e_title := t\<rparr>)))"

fun rewrite_all :: "env \<Rightarrow> series \<Rightarrow> episode list \<Rightarrow> error + episode list" where
  "rewrite_all env ser [] = Inr []"
| "rewrite_all env ser (eps # rest) =
     (case rewritten env ser eps of
        Inl err \<Rightarrow> Inl err
      | Inr eps' \<Rightarrow>
          (case rewrite_all env ser rest of
             Inl err \<Rightarrow> Inl err
           | Inr rest' \<Rightarrow> Inr (eps' # rest')))"

definition needed_of :: "env \<Rightarrow> series \<Rightarrow> error + episode list" where
  "needed_of env ser =
     (case get_episodes_by_series_id env (s_id ser) of
        Inl err \<Rightarrow> Inl err
      | Inr fetched \<Rightarrow> rewrite_all env ser (filter (\<lambda>eps. \<not> excluded env ser eps) fetched))"

definition series_log :: "series \<Rightarrow> episode list \<Rightarrow> log" where
  "series_log ser episodes =
     (if length episodes = 0
      then [(INFO, Text (s_title ser @ '' no episodes needed''))]
      else [(INFO, Text (s_title ser @ '' missing '' @ str_nat (length episodes) @ '' episodes''))]
             @ map (\<lambda>(i, e). (INFO, Text (''  '' @ str_nat (i + 1) @ '': ''
                     @ s_title ser @ '' - '' @ e_title e)))
                 (enumerate 0 episodes))"

fun pass_result :: "env \<Rightarrow> series list \<Rightarrow> error + (episode list \<times> series list \<times> log)" where
  "pass_result env [] = Inr ([], [], [])"
| "pass_result env (ser # rest) =
     (case needed_of env ser of
        Inl err \<Rightarrow> Inl err
      | Inr episodes \<Rightarrow>
          (case pass_result env rest of
             Inl err \<Rightarrow> Inl err
           | Inr (needed, series, lg) \<Rightarrow>
               Inr (episodes @ needed,
                    (if length episodes = 0 then series else ser # series),
                    series_log ser episodes @ lg)))"

text \<open>The needed episodes of a series whose listing and rewrites do not raise.\<close>

definition needed_for :: "env \<Rightarrow> series \<Rightarrow> episode list" where
  "needed_for env ser = (case needed_of env ser of Inl err \<Rightarrow> [] | Inr episodes \<Rightarrow> episodes)"

section \<open>Example data\<close>

text \<open>
  The scenario of the specification: the series Example Show, number 42 of the media
  manager, configured with a playlist; its episode Pilot, aired, monitored and without
  a file; a catalog that finds a video, a download and a rescan that succeed.
\<close>

definition example_series :: series where
  "example_series =
     \<lparr>s_id = 42, s_title = ''Example Show'', s_monitored = True, s_path = ''/tv/Example Show'',
      s_subtitles = False, s_playlistreverse = True, s_subtitles_languages = [''en''],
      s_subtitles_autogenerated = False, s_sonarr_regex = None, s_site_regex = None,
      s_offset = None, s_cookies_file = None, s_format = None,
      s_url = ''https://video.example/playlist'', s_preprend_with_title = False\<rparr>"

definition example_wanted :: wanted where
  "example_wanted =
     \<lparr>w_title = ''Example Show'', w_url = ''https://video.example/playlist'', w_regex = None,
      w_offset = None, w_cookies_file = None, w_format = None, w_playlistreverse = None,
      w_subtitles = None, w_preprend_with_title = False\<rparr>"

definition pilot :: episode where
  "pilot =
     \<lparr>e_id = 1, e_seriesId = 42, e_title = ''Pilot'', e_seasonNumber = 1, e_episodeNumber = 1,
      e_airDateUtc = Some 500, e_monitored = True, e_hasFile = False\<rparr>"

definition second_episode :: episode where
  "second_episode = pilot\<lparr>e_id := 2, e_title := ''Second'', e_episodeNumber := 2\<rparr>"

text \<open>
  An episode that airs after \<open>now\<close>, one that has a file, one without an air date, and
  a second series whose only episode has a file.
\<close>

definition unaired_episode :: episode where
  "unaired_episode =
     pilot\<lparr>e_id := 3, e_title := ''Third'', e_episodeNumber := 3, e_airDateUtc := Some 2000\<rparr>"

definition stored_episode :: episode where
  "stored_episode =
     pilot\<lparr>e_id := 4, e_title := ''Fourth'', e_episodeNumber := 4, e_airDateUtc := Some 2000,
           e_hasFile := True\<rparr>"

definition undated_episode :: episode where
  "undated_episode =
     pilot\<lparr>e_id := 5, e_title := ''Special'', e_seasonNumber := 0, e_airDateUtc := None\<rparr>"

definition other_series :: series where
  "other_series = example_series\<lparr>s_id := 43, s_title := ''Other Show'', s_path := ''/tv/Other Show''\<rparr>"

definition other_episode :: episode where
  "other_episode = pilot\<lparr>e_id := 6, e_seriesId := 43, e_title := ''Opening'', e_hasFile := True\<rparr>"

definition example_env :: env where
  "example_env =
     \<lparr>debug = False, ytdl_format = ''bestvideo+bestaudio'', ytdl_merge_output_format = ''mkv'',
      CONFIGPATH = ''/config/'', now = 1000,
      abspath = (\<lambda>p. p),
      path_exists = (\<lambda>p. p = ''/config/cookies.txt''),
      basename = (\<lambda>p. p),
      get_episodes_by_series_id = (\<lambda>i.
        if i = 42 then Inr [pilot, unaired_episode, stored_episode, undated_episode]
        else if i = 43 then Inr [other_episode]
        else Inl (Raised ''HTTPError'')),
      re_sub = (\<lambda>match replace t. Inr t),
      extract_info = (\<lambda>opts playlist.
        Inr (Some \<lparr>entries = Some [Some (Some ''https://video.example/watch/1'')],
                   webpage_url = Some playlist\<rparr>)),
      ydl_download = (\<lambda>opts url.
        (case map_of opts ''outtmpl'' of Some (OStr file) \<Rightarrow> [Finished file] | _ \<Rightarrow> [], None)),
      rescanseries = (\<lambda>i. None)\<rparr>"

text \<open>The same with a catalog query that raises, and with a rescan that raises.\<close>

definition search_raises_env :: env where
  "search_raises_env = example_env\<lparr>extract_info := (\<lambda>opts playlist. Inl (Raised ''DownloadError''))\<rparr>"

definition rescan_raises_env :: env where
  "rescan_raises_env = example_env\<lparr>rescanseries := (\<lambda>i. Some (Raised ''ConnectionError''))\<rparr>"

section \<open>Properties\<close>

subsection \<open>The offset calculator\<close>

text \<open>
  C9. For every timestamp and offset specification, \<open>offsethandler\<close> returns the timestamp
  shifted by the sum of the weeks, days, hours and minutes fields, a missing field
  contributing nothing and a negative one subtracting: the empty offset is the identity,
  one week is seven days, and the shift of an offset is the sum of the shifts of its four
  fields taken alone; applying the four fields one after the other gives the same.
\<close>

theorem offsethandler_shifts_by_sum:
  "offsethandler t no_offset = t
   \<and> offsethandler t (no_offset\<lparr>weeks := Some 1\<rparr>) = t + 7 * 86400000000
   \<and> offsethandler t off = t + field (weeks off) * 604800000000 + field (days off) * 86400000000
        + field (hours off) * 3600000000 + field (minutes off) * 60000000
   \<and> offsethandler t off - t = (offsethandler t (only_weeks off) - t) + (offsethandler t (only_days off) - t)
        + (offsethandler t (only_hours off) - t) + (offsethandler t (only_minutes off) - t)
   \<and> offsethandler t off
        = offsethandler (offsethandler (offsethandler (offsethandler t (only_weeks off)) (only_days off))
            (only_hours off)) (only_minutes off)"
  by (simp add: offsethandler_def timedelta_def field_def no_offset_def only_weeks_def only_days_def
      only_hours_def only_minutes_def split: option.split)

subsection \<open>The cookie option\<close>

lemma map_of_dict_update:
  "map_of (dict_update k v kvs) = (map_of kvs)(k \<mapsto> v)"
  by (induction kvs) auto

text \<open>
  C10. For every options dictionary and cookies argument, \<open>appendcookie\<close> returns a
  dictionary that agrees with the input on every key other than \<open>cookiefile\<close>. When the
  cookies argument is given and the file exists at the path under the configuration
  directory, the result is the input with \<open>cookiefile\<close> set to that path; when the
  argument is \<open>None\<close> or the file does not exist, the result is the input.
\<close>

theorem appendcookie_frame:
  "(k \<noteq> ''cookiefile'' \<longrightarrow> map_of (fst (appendcookie env ytdlopts cookies)) k = map_of ytdlopts k)
   \<and> (cookies = Some c \<and> path_exists env (abspath env (CONFIGPATH env @ c)) \<longrightarrow>
        fst (appendcookie env ytdlopts cookies)
          = dict_update ''cookiefile'' (OStr (abspath env (CONFIGPATH env @ c))) ytdlopts
        \<and> map_of (fst (appendcookie env ytdlopts cookies)) ''cookiefile''
          = Some (OStr (abspath env (CONFIGPATH env @ c))))
   \<and> (cookies = None \<or> (cookies = Some c \<and> \<not> path_exists env (abspath env (CONFIGPATH env @ c))) \<longrightarrow>
        fst (appendcookie env ytdlopts cookies) = ytdlopts)"
  by (auto simp: appendcookie_def map_of_dict_update Let_def split: option.split)

theorem appendcookie_frame_witness:
  "map_of (fst (appendcookie example_env [(''quiet'', OBool True)] (Some ''cookies.txt''))) ''quiet''
     = Some (OBool True)
   \<and> fst (appendcookie example_env [(''quiet'', OBool True)] (Some ''cookies.txt''))
     = [(''quiet'', OBool True), (''cookiefile'', OStr ''/config/cookies.txt'')]
   \<and> fst (appendcookie example_env [(''quiet'', OBool True)] (Some ''missing.txt''))
     = [(''quiet'', OBool True)]
   \<and> fst (appendcookie example_env [(''quiet'', OBool True)] None) = [(''quiet'', OBool True)]"
proof -
  have ne: "''quiet'' \<noteq> ''cookiefile''"
    by simp
  have ex: "path_exists example_env (abspath example_env (CONFIGPATH example_env @ ''cookies.txt''))"
    by code_simp
  have nex: "\<not> path_exists example_env (abspath example_env (CONFIGPATH example_env @ ''missing.txt''))"
    by code_simp
  have p: "abspath example_env (CONFIGPATH example_env @ ''cookies.txt'') = ''/config/cookies.txt''"
    by code_simp
  note present = appendcookie_frame [where env = example_env and ytdlopts = "[(''quiet'', OBool True)]"
      and cookies = "Some ''cookies.txt''" and c = "''cookies.txt''" and k = "''quiet''"]
  note missing = appendcookie_frame [where env = example_env and ytdlopts = "[(''quiet'', OBool True)]"
      and cookies = "Some ''missing.txt''" and c = "''missing.txt''" and k = "''quiet''"]
  note none = appendcookie_frame [where env = example_env and ytdlopts = "[(''quiet'', OBool True)]"
      and cookies = None and c = "''missing.txt''" and k = "''quiet''"]
  show ?thesis
    using present missing none ne ex nex p by simp
qed

subsection \<open>The title pattern compiler\<close>

text \<open>
  C3. The claim is that the compiled pattern treats the word AND between spaces and an
  ampersand between spaces as interchangeable. The source looks for the text
  backslash, space, \<open>AND\<close>, backslash, space, which a title that was upper-cased but never
  escaped does not hold: on the titles below nothing is replaced, and neither pattern
  has the alternation \<open>(AND|&)\<close>.
\<close>

theorem upperescape_and_not_alternation:
  "upperescape ''Tom and Jerry'' = ''TOM'' @ [backslash] @ ''s*AND'' @ [backslash] @ ''s*JERRY''
   \<and> upperescape ''Tom & Jerry'' = ''TOM'' @ [backslash] @ ''s*&'' @ [backslash] @ ''s*JERRY''
   \<and> \<not> contains ''(AND|&)'' (upperescape ''Tom and Jerry'')
   \<and> \<not> contains ''(AND|&)'' (upperescape ''Tom & Jerry'')"
  by code_simp

text \<open>
  C4. The claim is that every colon, apostrophe (straight or typographic), comma,
  exclamation mark, period and question mark of the title becomes a group that matches
  the mark zero or one time. The source replaces a question mark and a period only when
  a backslash precedes them, and does not look for the typographic apostrophe: on the
  titles below the question mark, the period and the typographic apostrophe stay as they
  are, while the colon, the comma, the exclamation mark and the straight apostrophe
  become groups.
\<close>

theorem upperescape_period_question_mark_kept:
  "upperescape ''What? Now.'' = ''WHAT?'' @ [backslash] @ ''s*NOW.''
   \<and> upperescape (''It'' @ typographic_apostrophe @ ''s'') = ''IT'' @ typographic_apostrophe @ ''S''
   \<and> upperescape (''a:b,c!d'' @ [apostrophe] @ ''e'')
       = ''A([:]?)B([,]?)C([!]?)D(['' @ [apostrophe] @ typographic_apostrophe @ '']?)E''"
  by code_simp

subsection \<open>Catalog search\<close>

text \<open>
  C1. The claim is that a catalog query that raises gives the result "not found" (false
  with an empty URL) and that the remaining episodes of the batch are processed. In the
  source the handler logs and the method ends without \<open>return\<close>, so it returns \<open>None\<close>;
  the caller's unpacking of the pair raises TypeError, which nothing catches. With two
  needed episodes and a query that raises, the pass ends on the first with that
  exception and the second is never searched.
\<close>

theorem ytsearch_exception_aborts_batch:
  "ytsearch search_raises_env
       (fst (ytdl_eps_search_opts search_raises_env (upperescape ''Pilot'') True None))
       ''https://video.example/playlist''
     = (Inr None, [(EXCEPTION, Text ''extract_info failed'')])
   \<and> download search_raises_env [example_series] [pilot, second_episode]
     = ([(INFO, Text ''Processing Wanted Downloads''), (INFO, Text ''  Example Show:''),
         (EXCEPTION, Text ''extract_info failed'')], Some TypeError)"
  by code_simp

subsection \<open>Rescan after a download\<close>

text \<open>
  C2. The claim is that a rescan that raises after a completed download leaves the
  download reported as successful and never reports the episode as failed. The rescan
  is inside the \<open>try\<close> of the download, before the line that logs the success, and the
  handler logs \<open>Failed\<close>: with a download that completes and a rescan that raises, the
  log of the pass ends with \<open>Failed - Pilot\<close> and has no line \<open>Downloaded - Pilot\<close>.
\<close>

theorem rescan_failure_counterexample:
  "snd (ydl_download rescan_raises_env
          (fst (ytdl_format_options rescan_raises_env example_series pilot None))
          ''https://video.example/watch/1'') = None
   \<and> rescanseries rescan_raises_env 42 = Some (Raised ''ConnectionError'')
   \<and> download rescan_raises_env [example_series] [pilot]
     = ([(INFO, Text ''Processing Wanted Downloads''), (INFO, Text ''  Example Show:''),
         (INFO, Text ''    1: Found - Pilot''),
         (INFO, Text ''      Downloaded - /sonarr_root/tv/Example Show/Season 1/Example Show.S1E01.Pilot.%(ext)s''),
         (EXCEPTION, Text ''      Failed - Pilot'')], None)"
  by code_simp

lemma ytsearch_rescanseries:
  "ytsearch (env\<lparr>rescanseries := f\<rparr>) ydl_opts playlist = ytsearch env ydl_opts playlist"
  by (simp add: ytsearch_def)

lemma appendcookie_rescanseries:
  "appendcookie (env\<lparr>rescanseries := f\<rparr>) ytdlopts cookies = appendcookie env ytdlopts cookies"
  by (simp add: appendcookie_def split: option.split)

lemma ytdl_eps_search_opts_rescanseries:
  "ytdl_eps_search_opts (env\<lparr>rescanseries := f\<rparr>) regextitle playlistreverse cookies
     = ytdl_eps_search_opts env regextitle playlistreverse cookies"
  by (simp add: ytdl_eps_search_opts_def appendcookie_rescanseries)

lemma ytdl_format_options_rescanseries:
  "ytdl_format_options (env\<lparr>rescanseries := f\<rparr>) ser eps cookies = ytdl_format_options env ser eps cookies"
  by (simp add: ytdl_format_options_def appendcookie_rescanseries)

lemma run_hook_rescanseries:
  "run_hook (env\<lparr>rescanseries := f\<rparr>) h d = run_hook env h d"
  by (cases h; cases d) simp_all

lemma progress_log_rescanseries:
  "progress_log (env\<lparr>rescanseries := f\<rparr>) ytdlopts events = progress_log env ytdlopts events"
  by (simp add: progress_log_def run_hook_rescanseries split: option.split optval.split)

text \<open>
  C2, as amended. For every episode that was found and whose download completes, a
  rescan that raises is caught: the exception does not leave the method and the
  remaining episodes are processed. The orchestrator then logs the exception entry
  \<open>Failed - title\<close> for the episode in the place of the line \<open>Downloaded - title\<close> that a
  rescan without failure gives; the log before that entry, with the lines of the
  progress hook, is the same in both cases.
\<close>

theorem rescan_failure_logged_as_failed:
  assumes found: "fst (ytsearch env
             (fst (ytdl_eps_search_opts env (upperescape (eps_title_of ser eps))
                (s_playlistreverse ser) (s_cookies_file ser)))
             (s_url ser)) = Inr (Some (True, dlurl))"
    and downloaded: "snd (ydl_download env
             (fst (ytdl_format_options env ser eps (s_cookies_file ser))) dlurl) = None"
    and rescan: "rescanseries env (s_id ser) = Some err"
  shows "snd (download_eps env ser e eps) = None
     \<and> (\<exists>lg. fst (download_eps env ser e eps)
                = lg @ [(EXCEPTION, Text (''      Failed - '' @ eps_title_of ser eps))]
            \<and> fst (download_eps (env\<lparr>rescanseries := (\<lambda>i. None)\<rparr>) ser e eps)
                = lg @ [(INFO, Text (''      Downloaded - '' @ eps_title_of ser eps))])
     \<and> (s_id ser = e_seriesId eps \<longrightarrow>
          episodes_loop env ser e (eps # rest)
            = (fst (download_eps env ser e eps) @ fst (episodes_loop env ser (e + 1) rest),
               snd (episodes_loop env ser (e + 1) rest)))"
proof -
  obtain ydleps lg1 where so: "ytdl_eps_search_opts env (upperescape (eps_title_of ser eps))
        (s_playlistreverse ser) (s_cookies_file ser) = (ydleps, lg1)"
    by (cases "ytdl_eps_search_opts env (upperescape (eps_title_of ser eps))
        (s_playlistreverse ser) (s_cookies_file ser)")
  obtain lg2 where ys: "ytsearch env ydleps (s_url ser) = (Inr (Some (True, dlurl)), lg2)"
    using found so by (cases "ytsearch env ydleps (s_url ser)") simp
  obtain opts lg3 where fo: "ytdl_format_options env ser eps (s_cookies_file ser) = (opts, lg3)"
    by (cases "ytdl_format_options env ser eps (s_cookies_file ser)")
  obtain events where dl: "ydl_download env opts dlurl = (events, None)"
    using downloaded fo by (cases "ydl_download env opts dlurl") simp
  let ?lg = "lg1 @ lg2 @ [(INFO, Text (''    '' @ str_nat (e + 1) @ '': Found - '' @ eps_title_of ser eps))]
      @ lg3 @ progress_log env opts events"
  have a: "download_eps env ser e eps
      = (?lg @ [(EXCEPTION, Text (''      Failed - '' @ eps_title_of ser eps))], None)"
    by (simp add: download_eps_def Let_def so ys fo dl rescan)
  have b: "download_eps (env\<lparr>rescanseries := (\<lambda>i. None)\<rparr>) ser e eps
      = (?lg @ [(INFO, Text (''      Downloaded - '' @ eps_title_of ser eps))], None)"
    by (simp add: download_eps_def Let_def so ys fo dl ytsearch_rescanseries
        ytdl_eps_search_opts_rescanseries ytdl_format_options_rescanseries progress_log_rescanseries)
  have c: "s_id ser = e_seriesId eps \<Longrightarrow> episodes_loop env ser e (eps # rest)
            = (fst (download_eps env ser e eps) @ fst (episodes_loop env ser (e + 1) rest),
               snd (episodes_loop env ser (e + 1) rest))"
    by (simp add: a case_prod_beta)
  from a b c show ?thesis
    by (simp only: fst_conv snd_conv) blast
qed

theorem rescan_failure_logged_as_failed_witness:
  "snd (download_eps rescan_raises_env example_series 0 pilot) = None
   \<and> (\<exists>lg. fst (download_eps rescan_raises_env example_series 0 pilot)
              = lg @ [(EXCEPTION, Text ''      Failed - Pilot'')]
          \<and> fst (download_eps (rescan_raises_env\<lparr>rescanseries := (\<lambda>i. None)\<rparr>) example_series 0 pilot)
              = lg @ [(INFO, Text ''      Downloaded - Pilot'')])
   \<and> snd (episodes_loop rescan_raises_env example_series 0 [pilot, second_episode]) = None"
proof -
  have found: "fst (ytsearch rescan_raises_env
             (fst (ytdl_eps_search_opts rescan_raises_env (upperescape (eps_title_of example_series pilot))
                (s_playlistreverse example_series) (s_cookies_file example_series)))
             (s_url example_series)) = Inr (Some (True, ''https://video.example/watch/1''))"
    by code_simp
  have downloaded: "snd (ydl_download rescan_raises_env
             (fst (ytdl_format_options rescan_raises_env example_series pilot (s_cookies_file example_series)))
             ''https://video.example/watch/1'') = None"
    by code_simp
  have rescan: "rescanseries rescan_raises_env (s_id example_series) = Some (Raised ''ConnectionError'')"
    by code_simp
  have same: "s_id example_series = e_seriesId pilot"
    by code_simp
  have title: "eps_title_of example_series pilot = ''Pilot''"
    by code_simp
  have rest: "snd (episodes_loop rescan_raises_env example_series (0 + 1) [second_episode]) = None"
    by code_simp
  from rescan_failure_logged_as_failed [OF found downloaded rescan, of 0 "[second_episode]"] same title rest
  show ?thesis
    by simp
qed

subsection \<open>The output path\<close>

text \<open>
  C7. The claim is that all repeated spaces of the episode title are collapsed to single
  spaces. The source replaces pairs of spaces once, from the left, so a run of three
  spaces leaves two: the title \<open>a   b\<close> gives a path that still has a double space,
  and so does \<open>A : : B\<close>, whose colons leave three spaces.
\<close>

theorem outtmpl_spaces_counterexample:
  "outtmpl example_series (pilot\<lparr>e_title := ''a   b''\<rparr>)
     = ''/sonarr_root/tv/Example Show/Season 1/Example Show.S1E01.a  b.%(ext)s''
   \<and> contains ''  '' (str_replace ''  '' '' '' (str_replace '':'' [] ''a   b''))
   \<and> outtmpl example_series (pilot\<lparr>e_title := ''A : : B''\<rparr>)
     = ''/sonarr_root/tv/Example Show/Season 1/Example Show.S1E01.A  B.%(ext)s''"
  by code_simp

lemma str_replace_single:
  "str_replace [x] new s = concat (map (\<lambda>c. if c = x then new else [c]) s)"
  by (induction s) auto

lemma str_replace_removes:
  "x \<notin> set (str_replace [x] [] s)"
  by (simp add: str_replace_single)

lemma str_replace_pair_Cons:
  "str_replace [x, x] [x] (c # cs) =
     (if c = x \<and> (\<exists>cs'. cs = x # cs') then x # str_replace [x, x] [x] (tl cs)
      else c # str_replace [x, x] [x] cs)"
  by (cases cs) auto

lemma str_replace_pair_head:
  "str_replace [x, x] [x] s = x # r \<Longrightarrow> \<exists>s'. s = x # s'"
  by (cases s) (auto simp: str_replace_pair_Cons split: if_splits)

lemma contains_pair_Cons:
  "contains [x, x] (c # cs) = ((c = x \<and> (\<exists>cs'. cs = x # cs')) \<or> contains [x, x] cs)"
  by (cases cs) auto

lemma contains_triple_Cons:
  "contains [x, x, x] (c # cs) =
     ((c = x \<and> (\<exists>cs'. cs = x # x # cs')) \<or> contains [x, x, x] cs)"
  by (cases cs; cases "tl cs") auto

lemma str_replace_pair_no_pair:
  "\<not> contains [x, x, x] s \<Longrightarrow> \<not> contains [x, x] (str_replace [x, x] [x] s)"
proof (induction s rule: length_induct)
  case (1 s)
  show ?case
  proof (cases s)
    case Nil
    then show ?thesis by simp
  next
    case (Cons c cs)
    show ?thesis
    proof (cases "c = x \<and> (\<exists>cs'. cs = x # cs')")
      case True
      then obtain cs' where cs: "cs = x # cs'" and c: "c = x" by auto
      from "1.prems" Cons cs c have no3: "\<not> contains [x, x, x] cs'" and nohd: "\<nexists>t. cs' = x # t"
        by (auto simp: contains_triple_Cons)
      have "length cs' < length s" using Cons cs by simp
      with "1.IH" no3 have ih: "\<not> contains [x, x] (str_replace [x, x] [x] cs')" by blast
      have "\<nexists>r. str_replace [x, x] [x] cs' = x # r"
        using nohd str_replace_pair_head by fastforce
      moreover have "str_replace [x, x] [x] s = x # str_replace [x, x] [x] cs'"
        by (simp add: Cons cs c)
      ultimately show ?thesis
        using ih by (simp add: contains_pair_Cons del: contains.simps)
    next
      case False
      from "1.prems" Cons have no3: "\<not> contains [x, x, x] cs"
        by (auto simp: contains_triple_Cons simp del: contains.simps)
      have "length cs < length s" using Cons by simp
      with "1.IH" no3 have ih: "\<not> contains [x, x] (str_replace [x, x] [x] cs)" by blast
      have "c = x \<Longrightarrow> \<nexists>r. str_replace [x, x] [x] cs = x # r"
        using False str_replace_pair_head by fastforce
      moreover have "str_replace [x, x] [x] s = c # str_replace [x, x] [x] cs"
        using False by (simp only: Cons str_replace_pair_Cons if_False)
      ultimately show ?thesis
        using ih by (auto simp: contains_pair_Cons simp del: contains.simps)
    qed
  qed
qed

lemma str_nat_nonempty: "str_nat n \<noteq> []"
  by (subst str_nat.simps) simp

lemma str_nat_digit: "n < 10 \<Longrightarrow> str_nat n = [digit_char n]"
  by (subst str_nat.simps) simp

lemma str_nat_long: "10 \<le> n \<Longrightarrow> 2 \<le> length (str_nat n)"
  using str_nat_nonempty [of "n div 10"]
  by (subst str_nat.simps) (cases "str_nat (n div 10)"; simp)

lemma str_int_digit: "0 \<le> i \<Longrightarrow> i < 10 \<Longrightarrow> str_int i = [digit_char (nat i)]"
  by (simp add: str_int_def str_nat_digit)

lemma format_02d_digit: "0 \<le> i \<Longrightarrow> i < 10 \<Longrightarrow> format_02d i = [CHR ''0'', digit_char (nat i)]"
  by (simp add: format_02d_def str_int_digit)

lemma format_02d_long: "10 \<le> i \<Longrightarrow> format_02d i = str_int i"
  using str_nat_long [of "nat i"] by (simp add: format_02d_def str_int_def)

lemma appendcookie_other_keys:
  "k \<noteq> ''cookiefile'' \<Longrightarrow> map_of (fst (appendcookie env ytdlopts cookies)) k = map_of ytdlopts k"
  by (simp add: appendcookie_def map_of_dict_update Let_def split: option.split)

lemma customformat_other_keys:
  "k \<noteq> ''format'' \<Longrightarrow> map_of (customformat ytdlopts f) k = map_of ytdlopts k"
  by (simp add: customformat_def map_of_dict_update split: option.split)

lemma ytdl_format_options_outtmpl:
  "map_of (fst (ytdl_format_options env ser eps cookies)) ''outtmpl'' = Some (OStr (outtmpl ser eps))"
proof -
  have "map_of (fst (appendcookie env opts cookies)) ''outtmpl'' = map_of opts ''outtmpl''" for opts
    by (rule appendcookie_other_keys) simp
  moreover have "map_of (customformat opts f) ''outtmpl'' = map_of opts ''outtmpl''" for opts f
    by (rule customformat_other_keys) simp
  ultimately show ?thesis
    by (simp add: ytdl_format_options_def Let_def map_of_dict_update case_prod_beta
        split: option.split)
qed

lemma set_str_replace: "set (str_replace old new s) \<subseteq> set new \<union> set s"
proof (induction old new s rule: str_replace.induct)
  case (1 old new)
  then show ?case by auto
next
  case (2 old new c cs)
  have "set (drop (length old) (c # cs)) \<subseteq> set (c # cs)"
    by (rule set_drop_subset)
  with 2 show ?case
    by (auto simp del: drop.simps take.simps)
qed


text \<open>
  C7, as amended. The output path is the fixed template filled with the path of the
  series, the season number as \<open>str\<close> writes it (not padded), the series title without
  its colons, the episode number padded with a zero to two digits, and the episode title
  without its colons and after one pass, from the left, in which each pair of adjacent
  spaces becomes one space. No colon is left in either title; when the episode title,
  its colons removed, has no run of three spaces, no two adjacent spaces are left. The
  path is the value of the option \<open>outtmpl\<close> of the download.
\<close>

theorem outtmpl_shape:
  "outtmpl ser eps =
      ''/sonarr_root'' @ s_path ser @ ''/Season '' @ str_int (e_seasonNumber eps) @ ''/''
        @ str_replace '':'' [] (s_title ser) @ ''.S'' @ str_int (e_seasonNumber eps)
        @ ''E'' @ format_02d (e_episodeNumber eps) @ ''.''
        @ str_replace ''  '' '' '' (str_replace '':'' [] (e_title eps)) @ ''.%(ext)s''
   \<and> CHR '':'' \<notin> set (str_replace '':'' [] (s_title ser))
   \<and> CHR '':'' \<notin> set (str_replace ''  '' '' '' (str_replace '':'' [] (e_title eps)))
   \<and> (\<not> contains ''   '' (str_replace '':'' [] (e_title eps)) \<longrightarrow>
        \<not> contains ''  '' (str_replace ''  '' '' '' (str_replace '':'' [] (e_title eps))))
   \<and> (0 \<le> e_seasonNumber eps \<and> e_seasonNumber eps < 10 \<longrightarrow>
        str_int (e_seasonNumber eps) = [digit_char (nat (e_seasonNumber eps))])
   \<and> (0 \<le> e_episodeNumber eps \<and> e_episodeNumber eps < 10 \<longrightarrow>
        format_02d (e_episodeNumber eps) = [CHR ''0'', digit_char (nat (e_episodeNumber eps))])
   \<and> (10 \<le> e_episodeNumber eps \<longrightarrow> format_02d (e_episodeNumber eps) = str_int (e_episodeNumber eps))
   \<and> map_of (fst (ytdl_format_options env ser eps cookies)) ''outtmpl'' = Some (OStr (outtmpl ser eps))"
proof -
  have "set (str_replace ''  '' '' '' (str_replace '':'' [] (e_title eps)))
          \<subseteq> set '' '' \<union> set (str_replace '':'' [] (e_title eps))"
    by (rule set_str_replace)
  then have colon: "CHR '':'' \<notin> set (str_replace ''  '' '' '' (str_replace '':'' [] (e_title eps)))"
    using str_replace_removes [of "CHR '':''" "e_title eps"] by auto
  show ?thesis
    using colon str_replace_removes [of "CHR '':''" "s_title ser"]
      str_replace_pair_no_pair [of "CHR '' ''" "str_replace '':'' [] (e_title eps)"]
    by (simp add: outtmpl_def str_int_digit format_02d_digit format_02d_long
        ytdl_format_options_outtmpl del: str_replace.simps contains.simps)
qed

theorem outtmpl_shape_witness:
  "outtmpl example_series pilot
     = ''/sonarr_root/tv/Example Show/Season 1/Example Show.S1E01.Pilot.%(ext)s''
   \<and> \<not> contains ''  '' (str_replace ''  '' '' '' (str_replace '':'' [] ''A : B''))
   \<and> str_int 1 = ''1'' \<and> format_02d 1 = ''01'' \<and> format_02d 12 = ''12''"
proof -
  have sp: "\<not> contains ''   '' (str_replace '':'' [] (e_title (pilot\<lparr>e_title := ''A : B''\<rparr>)))"
    by code_simp
  have t: "e_title (pilot\<lparr>e_title := ''A : B''\<rparr>) = ''A : B''"
    by simp
  have n1: "0 \<le> e_seasonNumber pilot \<and> e_seasonNumber pilot < 10"
    by code_simp
  have n2: "0 \<le> e_episodeNumber pilot \<and> e_episodeNumber pilot < 10"
    by code_simp
  have n3: "10 \<le> e_episodeNumber (pilot\<lparr>e_episodeNumber := 12\<rparr>)"
    by simp
  have v: "e_seasonNumber pilot = 1" "e_episodeNumber pilot = 1"
    "e_episodeNumber (pilot\<lparr>e_episodeNumber := 12\<rparr>) = 12"
    by (simp_all add: pilot_def)
  have d: "digit_char (nat 1) = CHR ''1''" "str_int 12 = ''12''"
    by code_simp+
  have ex: "outtmpl example_series pilot
     = ''/sonarr_root/tv/Example Show/Season 1/Example Show.S1E01.Pilot.%(ext)s''"
    by code_simp
  note a = outtmpl_shape [where ser = example_series and eps = "pilot\<lparr>e_title := ''A : B''\<rparr>"
      and env = example_env and cookies = None]
  note b = outtmpl_shape [where ser = example_series and eps = pilot
      and env = example_env and cookies = None]
  note c = outtmpl_shape [where ser = example_series and eps = "pilot\<lparr>e_episodeNumber := 12\<rparr>"
      and env = example_env and cookies = None]
  from a sp t have "\<not> contains ''  '' (str_replace ''  '' '' '' (str_replace '':'' [] ''A : B''))"
    by (simp del: str_replace.simps contains.simps)
  moreover from b n1 n2 v d have "str_int 1 = ''1'' \<and> format_02d 1 = ''01''"
    by (simp del: str_replace.simps contains.simps)
  moreover from c n3 v d have "format_02d 12 = ''12''"
    by (simp del: str_replace.simps contains.simps)
  ultimately show ?thesis
    using ex by blast
qed

subsection \<open>The series configuration resolver\<close>

text \<open>
  C8. The claim is that no two entries of the matched list share a title. The source
  appends the series once for every configured entry with its title, and once for every
  series of the media manager with that title: two configured entries for Example Show
  give the same dictionary twice (with the URL of the second entry), and two series of
  the media manager titled Example Show give two policies with one title.
\<close>

theorem filterseries_titles_counterexample:
  "fst (filterseries [example_series]
          [example_wanted, example_wanted\<lparr>w_url := ''https://video.example/other''\<rparr>])
     = [example_series\<lparr>s_url := ''https://video.example/other''\<rparr>,
        example_series\<lparr>s_url := ''https://video.example/other''\<rparr>]
   \<and> \<not> distinct (map s_title (fst (filterseries [example_series]
          [example_wanted, example_wanted\<lparr>w_url := ''https://video.example/other''\<rparr>])))
   \<and> \<not> distinct (map s_title (fst (filterseries [example_series, example_series\<lparr>s_id := 43\<rparr>]
          [example_wanted])))"
  by code_simp

lemma update_values_title: "s_title (update_values wnt ser) = s_title ser"
  by (simp add: update_values_def Let_def split: option.split)

lemma wnt_loop_titles:
  "map s_title (fst (wnt_loop wnts i heap matched)) = map s_title heap"
proof (induction wnts arbitrary: heap matched)
  case Nil
  then show ?case by simp
next
  case (Cons wnt wnts)
  have "map s_title (heap[i := update_values wnt (heap ! i)]) = map s_title heap"
    by (cases "i < length heap")
      (simp_all add: map_update update_values_title list_update_same_conv list_update_beyond)
  with Cons show ?case by simp
qed

lemma wnt_loop_matched:
  "snd (wnt_loop wnts i heap matched)
     = matched @ replicate (length (filter (\<lambda>w. w_title w = s_title (heap ! i)) wnts)) i"
proof (induction wnts arbitrary: heap matched)
  case Nil
  then show ?case by simp
next
  case (Cons wnt wnts)
  have "s_title (heap[i := update_values wnt (heap ! i)] ! i) = s_title (heap ! i)"
    by (cases "i < length heap") (simp_all add: update_values_title list_update_beyond)
  with Cons show ?case
    by (simp add: replicate_append_same)
qed

lemma ser_loop_titles:
  "map s_title (fst (ser_loop wanted refs heap matched)) = map s_title heap"
  by (induction refs arbitrary: heap matched)
    (simp_all add: case_prod_beta wnt_loop_titles)

lemma nth_title:
  "map s_title heap' = map s_title heap \<Longrightarrow> i < length heap \<Longrightarrow> s_title (heap' ! i) = s_title (heap ! i)"
  by (metis length_map nth_map)

lemma ser_loop_matched:
  "set refs \<subseteq> {..<length heap} \<Longrightarrow>
   snd (ser_loop wanted refs heap matched)
     = matched @ concat (map (\<lambda>i. replicate
         (length (filter (\<lambda>w. w_title w = s_title (heap ! i)) wanted)) i) refs)"
proof (induction refs arbitrary: heap matched)
  case Nil
  then show ?case by simp
next
  case (Cons i refs)
  let ?heap' = "fst (wnt_loop wanted i heap matched)"
  have titles: "map s_title ?heap' = map s_title heap"
    by (rule wnt_loop_titles)
  then have len: "length ?heap' = length heap"
    by (metis length_map)
  with Cons.prems have "set refs \<subseteq> {..<length ?heap'}" by simp
  from Cons.IH [OF this]
  have "snd (ser_loop wanted refs ?heap' (snd (wnt_loop wanted i heap matched)))
     = snd (wnt_loop wanted i heap matched) @ concat (map (\<lambda>i. replicate
         (length (filter (\<lambda>w. w_title w = s_title (?heap' ! i)) wanted)) i) refs)" .
  moreover have "map (\<lambda>i. replicate (length (filter (\<lambda>w. w_title w = s_title (?heap' ! i)) wanted)) i) refs
     = map (\<lambda>i. replicate (length (filter (\<lambda>w. w_title w = s_title (heap ! i)) wanted)) i) refs"
  proof (rule map_cong [OF refl])
    fix j assume "j \<in> set refs"
    with Cons.prems have "j < length heap" by auto
    with titles have "s_title (?heap' ! j) = s_title (heap ! j)" by (rule nth_title)
    then show "replicate (length (filter (\<lambda>w. w_title w = s_title (?heap' ! j)) wanted)) j
        = replicate (length (filter (\<lambda>w. w_title w = s_title (heap ! j)) wanted)) j"
      by simp
  qed
  ultimately show ?case
    by (simp add: case_prod_beta wnt_loop_matched)
qed

lemma filter_key_at_most_one:
  "distinct (map f xs) \<Longrightarrow> length (filter (\<lambda>x. f x = t) xs) \<le> 1"
  by (induction xs) (auto simp: filter_empty_conv intro: rev_image_eqI)

lemma set_concat_replicate:
  "set (concat (map (\<lambda>x. replicate (c x) x) xs)) \<subseteq> set xs"
  by auto

lemma distinct_concat_replicate:
  "distinct xs \<Longrightarrow> (\<And>x. c x \<le> (1::nat)) \<Longrightarrow> distinct (concat (map (\<lambda>x. replicate (c x) x) xs))"
proof (induction xs)
  case Nil
  then show ?case by simp
next
  case (Cons x xs)
  have "c x = 0 \<or> c x = 1" using Cons.prems(2) [of x] by linarith
  moreover have "set (concat (map (\<lambda>x. replicate (c x) x) xs)) \<subseteq> set xs"
    by (rule set_concat_replicate)
  ultimately show ?case using Cons by (auto simp del: set_concat)
qed

text \<open>
  C8, as amended. When the series of the media manager have pairwise distinct titles and
  the configured entries have pairwise distinct titles, the list that \<open>filterseries\<close>
  returns has at most one policy per title.
\<close>

theorem filterseries_titles_distinct:
  assumes "distinct (map s_title series)" and "distinct (map w_title wanted)"
  shows "distinct (map s_title (fst (filterseries series wanted)))"
proof -
  let ?res = "ser_loop wanted [0..<length series] series []"
  let ?count = "\<lambda>i. length (filter (\<lambda>w. w_title w = s_title (series ! i)) wanted)"
  let ?refs = "concat (map (\<lambda>i. replicate (?count i) i) [0..<length series])"
  have "set [0..<length series] \<subseteq> {..<length series}"
    by auto
  from ser_loop_matched [OF this, of wanted "[]"] have refs: "snd ?res = ?refs"
    by simp
  have titles: "map s_title (fst ?res) = map s_title series"
    by (rule ser_loop_titles)
  have "distinct ?refs"
    using filter_key_at_most_one [OF assms(2)] by (intro distinct_concat_replicate) simp_all
  moreover have "set ?refs \<subseteq> set [0..<length series]"
    by (rule set_concat_replicate)
  then have sub: "set ?refs \<subseteq> {..<length series}"
    by (simp only: set_upt atLeast0LessThan)
  moreover have "inj_on (\<lambda>i. s_title (series ! i)) {..<length series}"
    using assms(1) by (auto simp: inj_on_def distinct_conv_nth)
  ultimately have "distinct (map (\<lambda>i. s_title (series ! i)) ?refs)"
    by (simp add: distinct_map inj_on_subset)
  moreover have "s_title (fst ?res ! i) = s_title (series ! i)" if "i \<in> set ?refs" for i
    using that sub titles nth_title [of "fst ?res" series i] by blast
  then have "map (\<lambda>i. s_title (fst ?res ! i)) ?refs = map (\<lambda>i. s_title (series ! i)) ?refs"
    by (simp only: map_eq_conv) blast
  moreover have "fst (filterseries series wanted) = map (\<lambda>i. fst ?res ! i) (snd ?res)"
    by (simp add: filterseries_def case_prod_beta Let_def)
  then have "map s_title (fst (filterseries series wanted)) = map (\<lambda>i. s_title (fst ?res ! i)) ?refs"
    by (simp only: refs map_map o_def)
  ultimately show ?thesis
    by (simp only:)
qed

theorem filterseries_titles_distinct_witness:
  "distinct (map s_title [example_series, example_series\<lparr>s_id := 43, s_title := ''Other Show''\<rparr>])
   \<and> distinct (map w_title [example_wanted\<lparr>w_title := ''Other Show''\<rparr>, example_wanted])
   \<and> distinct (map s_title (fst (filterseries
         [example_series, example_series\<lparr>s_id := 43, s_title := ''Other Show''\<rparr>]
         [example_wanted\<lparr>w_title := ''Other Show''\<rparr>, example_wanted])))
   \<and> length (fst (filterseries
         [example_series, example_series\<lparr>s_id := 43, s_title := ''Other Show''\<rparr>]
         [example_wanted\<lparr>w_title := ''Other Show''\<rparr>, example_wanted])) = 2"
proof -
  have remote: "distinct (map s_title
      [example_series, example_series\<lparr>s_id := 43, s_title := ''Other Show''\<rparr>])"
    by code_simp
  have config: "distinct (map w_title [example_wanted\<lparr>w_title := ''Other Show''\<rparr>, example_wanted])"
    by code_simp
  have both: "length (fst (filterseries
         [example_series, example_series\<lparr>s_id := 43, s_title := ''Other Show''\<rparr>]
         [example_wanted\<lparr>w_title := ''Other Show''\<rparr>, example_wanted])) = 2"
    by code_simp
  from filterseries_titles_distinct [OF remote config] remote config both
  show ?thesis
    by blast
qed

subsection \<open>The episode need filter\<close>

text \<open>
  The loops of \<open>getseriesepisodes\<close> against the functions of the listings. The loop over
  the episodes is followed with an invariant: the references left in \<open>episodes\<close> are the
  episodes kept so far, none of them excluded, and then the references still to visit;
  so \<open>remove\<close>, which compares by value, takes out the episode it is called for.
\<close>

lemma excluded_title: "excluded env ser (eps\<lparr>e_title := t\<rparr>) = excluded env ser eps"
  by (simp add: excluded_def eps_date_def)

lemma rewritten_excluded: "rewritten env ser eps = Inr eps' \<Longrightarrow> excluded env ser eps' = excluded env ser eps"
  by (auto simp: rewritten_def excluded_title split: option.splits sum.splits)

lemma eps_loop_step:
  "eps_loop env ser (i # refs) heap episodes needed =
     (if excluded env ser (heap ! i)
      then (case remove_ref heap (heap ! i) episodes of
              None \<Rightarrow> Inl ValueError
            | Some episodes' \<Rightarrow> eps_loop env ser refs heap episodes' needed)
      else (case rewritten env ser (heap ! i) of
              Inl err \<Rightarrow> Inl err
            | Inr eps' \<Rightarrow> eps_loop env ser refs (heap[i := eps']) episodes (needed @ [eps'])))"
  by (simp add: excluded_def rewritten_def Let_def split: option.split sum.split)

lemma remove_ref_found:
  "\<forall>j\<in>set kept. heap ! j \<noteq> heap ! i \<Longrightarrow>
   remove_ref heap (heap ! i) (kept @ i # refs) = Some (kept @ refs)"
  by (induction kept) simp_all

lemma eps_loop_result:
  assumes "distinct refs" and "set refs \<subseteq> {..<length heap}"
    and "\<forall>j\<in>set kept. \<not> excluded env ser (heap ! j)"
  shows "case rewrite_all env ser (filter (\<lambda>v. \<not> excluded env ser v) (map ((!) heap) refs)) of
           Inl err \<Rightarrow> eps_loop env ser refs heap (kept @ refs) needed = Inl err
         | Inr vs \<Rightarrow>
             (\<exists>heap'. eps_loop env ser refs heap (kept @ refs) needed
                  = Inr (heap', kept @ filter (\<lambda>j. \<not> excluded env ser (heap ! j)) refs, needed @ vs)
                \<and> length heap' = length heap
                \<and> map ((!) heap') (filter (\<lambda>j. \<not> excluded env ser (heap ! j)) refs) = vs
                \<and> (\<forall>j. j \<notin> set refs \<longrightarrow> heap' ! j = heap ! j))"
  using assms
proof (induction refs arbitrary: heap kept needed)
  case Nil
  then show ?case by simp
next
  case (Cons i refs)
  from Cons.prems have i: "i < length heap" "i \<notin> set refs" and d: "distinct refs"
    and sub: "set refs \<subseteq> {..<length heap}"
    by auto
  show ?case
  proof (cases "excluded env ser (heap ! i)")
    case True
    with Cons.prems(3) have "\<forall>j\<in>set kept. heap ! j \<noteq> heap ! i"
      by auto
    then have rm: "remove_ref heap (heap ! i) (kept @ i # refs) = Some (kept @ refs)"
      by (rule remove_ref_found)
    from Cons.IH [OF d sub Cons.prems(3), of needed] True rm show ?thesis
      by (auto simp: eps_loop_step simp del: eps_loop.simps split: sum.splits)
  next
    case False
    show ?thesis
    proof (cases "rewritten env ser (heap ! i)")
      case (Inl err)
      with False show ?thesis
        by (simp add: eps_loop_step del: eps_loop.simps)
    next
      case (Inr eps')
      let ?heap = "heap[i := eps']"
      have ex: "excluded env ser (?heap ! j) = excluded env ser (heap ! j)" for j
        using rewritten_excluded [OF Inr] i(1) by (cases "j = i") simp_all
      have same: "map ((!) ?heap) refs = map ((!) heap) refs"
        using i(2) by (intro map_cong refl) (metis nth_list_update_neq)
      have kept': "\<forall>j\<in>set (kept @ [i]). \<not> excluded env ser (?heap ! j)"
        using Cons.prems(3) False by (simp add: ex)
      have sub': "set refs \<subseteq> {..<length ?heap}"
        using sub by simp
      note ih = Cons.IH [OF d sub' kept', of "needed @ [eps']"]
      have step: "eps_loop env ser (i # refs) heap (kept @ i # refs) needed
          = eps_loop env ser refs ?heap ((kept @ [i]) @ refs) (needed @ [eps'])"
        using False Inr by (simp add: eps_loop_step del: eps_loop.simps)
      show ?thesis
      proof (cases "rewrite_all env ser (filter (\<lambda>v. \<not> excluded env ser v) (map ((!) heap) refs))")
        case (Inl err)
        with ih same False Inr step show ?thesis
          by (simp del: eps_loop.simps)
      next
        case (Inr vs)
        with ih same obtain heap' where
          h: "eps_loop env ser refs ?heap ((kept @ [i]) @ refs) (needed @ [eps'])
                = Inr (heap', (kept @ [i]) @ filter (\<lambda>j. \<not> excluded env ser (?heap ! j)) refs,
                       (needed @ [eps']) @ vs)"
            "length heap' = length ?heap"
            "map ((!) heap') (filter (\<lambda>j. \<not> excluded env ser (?heap ! j)) refs) = vs"
            "\<forall>j. j \<notin> set refs \<longrightarrow> heap' ! j = ?heap ! j"
          by (auto simp del: eps_loop.simps)
        from h(4) i have hi: "heap' ! i = eps'"
          by simp
        from h(4) i have other: "\<forall>j. j \<notin> set (i # refs) \<longrightarrow> heap' ! j = heap ! j"
          by simp
        from h hi other False \<open>rewritten env ser (heap ! i) = Inr eps'\<close> Inr step show ?thesis
          by (simp add: ex del: eps_loop.simps)
      qed
    qed
  qed
qed


lemma eps_loop_needed_of:
  assumes "get_episodes_by_series_id env (s_id ser) = Inr fetched"
  shows "case needed_of env ser of
           Inl err \<Rightarrow>
             eps_loop env ser [0..<length fetched] fetched [0..<length fetched] needed = Inl err
         | Inr vs \<Rightarrow>
             (\<exists>heap refs. eps_loop env ser [0..<length fetched] fetched [0..<length fetched] needed
                  = Inr (heap, refs, needed @ vs)
                \<and> map ((!) heap) refs = vs)"
proof -
  have "distinct [0..<length fetched]" and "set [0..<length fetched] \<subseteq> {..<length fetched}"
    and "\<forall>j\<in>set []. \<not> excluded env ser (fetched ! j)"
    by auto
  from eps_loop_result [OF this, of needed]
  show ?thesis
    by (auto simp: needed_of_def assms map_nth simp del: eps_loop.simps split: sum.splits)
qed

lemma series_loop_step:
  "series_loop env (ser # rest) series needed lg =
     (case needed_of env ser of
        Inl err \<Rightarrow> Inl err
      | Inr vs \<Rightarrow>
          (if length vs = 0
           then (case list_remove ser series of
                   None \<Rightarrow> Inl ValueError
                 | Some series' \<Rightarrow> series_loop env rest series' (needed @ vs) (lg @ series_log ser vs))
           else series_loop env rest series (needed @ vs) (lg @ series_log ser vs)))"
proof (cases "get_episodes_by_series_id env (s_id ser)")
  case (Inl err)
  then show ?thesis
    by (simp add: needed_of_def)
next
  case (Inr fetched)
  from eps_loop_needed_of [OF Inr, of needed] Inr show ?thesis
    by (auto simp: series_log_def Let_def simp del: eps_loop.simps split: sum.splits option.splits)
qed

lemma list_remove_found:
  "x \<notin> set kept \<Longrightarrow> list_remove x (kept @ x # rest) = Some (kept @ rest)"
  by (induction kept) auto

lemma series_loop_result:
  assumes "\<forall>s\<in>set kept. needed_of env s \<noteq> Inr []"
  shows "series_loop env rest (kept @ rest) needed lg =
     (case pass_result env rest of
        Inl err \<Rightarrow> Inl err
      | Inr (nd, ss, lg') \<Rightarrow> Inr (needed @ nd, kept @ ss, lg @ lg'))"
  using assms
proof (induction rest arbitrary: kept needed lg)
  case Nil
  then show ?case by simp
next
  case (Cons ser rest)
  show ?case
  proof (cases "needed_of env ser")
    case (Inl err)
    then show ?thesis
      by (simp add: series_loop_step del: series_loop.simps)
  next
    case (Inr vs)
    show ?thesis
    proof (cases "vs = []")
      case True
      with Inr Cons.prems have "ser \<notin> set kept"
        by auto
      then have "list_remove ser (kept @ ser # rest) = Some (kept @ rest)"
        by (rule list_remove_found)
      with Cons.IH [OF Cons.prems, of "needed @ vs" "lg @ series_log ser vs"] Inr True show ?thesis
        by (simp add: series_loop_step del: series_loop.simps split: sum.splits prod.splits)
    next
      case False
      with Inr Cons.prems have "\<forall>s\<in>set (kept @ [ser]). needed_of env s \<noteq> Inr []"
        by auto
      from Cons.IH [OF this, of "needed @ vs" "lg @ series_log ser vs"] Inr False show ?thesis
        by (simp add: series_loop_step del: series_loop.simps split: sum.splits prod.splits)
    qed
  qed
qed

lemma getseriesepisodes_pass_result:
  "getseriesepisodes env series = pass_result env series"
  using series_loop_result [of "[]" env series "[]" "[]"]
  by (simp add: getseriesepisodes_def split: sum.splits prod.splits)

lemma pass_result_lists:
  "pass_result env series = Inr (needed, series', lg) \<Longrightarrow>
   (\<forall>ser\<in>set series. \<exists>vs. needed_of env ser = Inr vs)
   \<and> needed = concat (map (needed_for env) series)
   \<and> series' = filter (\<lambda>ser. needed_for env ser \<noteq> []) series"
proof (induction series arbitrary: needed series' lg)
  case Nil
  then show ?case by simp
next
  case (Cons ser rest)
  from Cons.prems obtain vs nd ss lg' where
    vs: "needed_of env ser = Inr vs" and rest: "pass_result env rest = Inr (nd, ss, lg')"
    and res: "needed = vs @ nd" "series' = (if length vs = 0 then ss else ser # ss)"
    by (auto split: sum.splits prod.splits)
  from Cons.IH [OF rest] vs res show ?case
    by (simp add: needed_for_def)
qed

lemma rewritten_fields: "rewritten env ser v = Inr e \<Longrightarrow> e = v\<lparr>e_title := e_title e\<rparr>"
  by (auto simp: rewritten_def split: option.splits sum.splits)

lemma rewrite_all_fields:
  "rewrite_all env ser vs = Inr es \<Longrightarrow> list_all2 (\<lambda>v e. e = v\<lparr>e_title := e_title e\<rparr>) vs es"
proof (induction vs arbitrary: es)
  case Nil
  then show ?case by simp
next
  case (Cons v vs)
  then obtain e es' where "rewritten env ser v = Inr e" "rewrite_all env ser vs = Inr es'" "es = e # es'"
    by (auto split: sum.splits)
  with Cons.IH [of es'] rewritten_fields [of env ser v e] show ?case
    by simp
qed

lemma needed_of_fields:
  assumes "needed_of env ser = Inr es"
  shows "\<exists>fetched. get_episodes_by_series_id env (s_id ser) = Inr fetched
     \<and> list_all2 (\<lambda>v e. e = v\<lparr>e_title := e_title e\<rparr>)
          (filter (\<lambda>v. e_monitored v \<and> \<not> e_hasFile v \<and> \<not> eps_date env ser v > now env) fetched) es"
proof -
  from assms obtain fetched where f: "get_episodes_by_series_id env (s_id ser) = Inr fetched"
    and r: "rewrite_all env ser (filter (\<lambda>eps. \<not> excluded env ser eps) fetched) = Inr es"
    by (auto simp: needed_of_def split: sum.splits)
  have "(\<lambda>eps. \<not> excluded env ser eps)
      = (\<lambda>v. e_monitored v \<and> \<not> e_hasFile v \<and> \<not> eps_date env ser v > now env)"
    by (auto simp: excluded_def)
  with rewrite_all_fields [OF r] f show ?thesis
    by simp
qed

lemma rewrite_all_total:
  "\<forall>match replace t. \<exists>t'. re_sub env match replace t = Inr t' \<Longrightarrow> \<exists>es. rewrite_all env ser vs = Inr es"
proof (induction vs)
  case Nil
  then show ?case by simp
next
  case (Cons v vs)
  then obtain es where es: "rewrite_all env ser vs = Inr es"
    by blast
  have "\<exists>e. rewritten env ser v = Inr e"
  proof (cases "s_sonarr_regex ser")
    case None
    then show ?thesis by (simp add: rewritten_def)
  next
    case (Some mr)
    obtain match replace where mr: "mr = (match, replace)" by (cases mr)
    from Cons.prems obtain t' where "re_sub env match replace (e_title v) = Inr t'"
      by blast
    with Some mr show ?thesis by (simp add: rewritten_def)
  qed
  with es show ?case by auto
qed

lemma pass_result_total:
  assumes "\<forall>ser\<in>set series. \<exists>fetched. get_episodes_by_series_id env (s_id ser) = Inr fetched"
    and "\<forall>match replace t. \<exists>t'. re_sub env match replace t = Inr t'"
  shows "\<exists>r. pass_result env series = Inr r"
  using assms(1)
proof (induction series)
  case Nil
  then show ?case by simp
next
  case (Cons ser rest)
  then obtain fetched r where f: "get_episodes_by_series_id env (s_id ser) = Inr fetched"
    and r: "pass_result env rest = Inr r"
    by auto
  from rewrite_all_total [OF assms(2)] obtain es where
    "rewrite_all env ser (filter (\<lambda>eps. \<not> excluded env ser eps) fetched) = Inr es"
    by blast
  with f have "needed_of env ser = Inr es"
    by (simp add: needed_of_def)
  with r show ?case
    by (cases r) simp
qed

lemma list_all2_right: "list_all2 P xs ys \<Longrightarrow> y \<in> set ys \<Longrightarrow> \<exists>x\<in>set xs. P x y"
  by (induction rule: list_all2_induct) auto

lemma list_all2_left: "list_all2 P xs ys \<Longrightarrow> x \<in> set xs \<Longrightarrow> \<exists>y\<in>set ys. P x y"
  by (induction rule: list_all2_induct) auto

lemma needed_each:
  assumes "pass_result env series = Inr (needed, series', lg)" and "ser \<in> set series"
  shows "\<exists>fetched. get_episodes_by_series_id env (s_id ser) = Inr fetched
            \<and> list_all2 (\<lambda>v e. e = v\<lparr>e_title := e_title e\<rparr>)
                 (filter (\<lambda>v. e_monitored v \<and> \<not> e_hasFile v \<and> \<not> eps_date env ser v > now env) fetched)
                 (needed_for env ser)"
proof -
  from pass_result_lists [OF assms(1)] assms(2) obtain vs where vs: "needed_of env ser = Inr vs"
    by blast
  then have "needed_for env ser = vs"
    by (simp add: needed_for_def)
  with needed_of_fields [OF vs] show ?thesis
    by simp
qed

lemma needed_per_series:
  assumes "pass_result env series = Inr (needed, series', lg)"
  shows "list_all2 (\<lambda>ser episodes. \<exists>fetched.
            get_episodes_by_series_id env (s_id ser) = Inr fetched
            \<and> list_all2 (\<lambda>v e. e = v\<lparr>e_title := e_title e\<rparr>)
                 (filter (\<lambda>v. e_monitored v \<and> \<not> e_hasFile v \<and> \<not> eps_date env ser v > now env) fetched)
                 episodes)
           series (map (needed_for env) series)"
  using needed_each [OF assms] by (simp add: list_all2_conv_all_nth)

text \<open>
  C5. Whenever the listings and the title rewrites do not raise, the need filter returns.
  When it returns, the needed episodes are, series by series and in the order of the
  listing, the episodes that are monitored, have no file and whose date is not after
  \<open>now\<close>, each with all its fields but the title, which may be rewritten. So an episode
  that has a file is never needed, whatever its air date; an episode without air date,
  monitored and without a file, of a listed series is needed; and every needed episode
  comes from a listed episode whose date is not after \<open>now\<close>. The date of an episode
  without air date is \<open>now\<close>; otherwise it is the air date, shifted by the offset of the
  series when one is configured. Here \<open>now\<close> is the instant the source compares with, the
  value of its module variable.
\<close>

theorem need_filter_episodes:
  "((\<forall>ser\<in>set series. \<exists>fetched. get_episodes_by_series_id env (s_id ser) = Inr fetched)
      \<and> (\<forall>match replace t. \<exists>t'. re_sub env match replace t = Inr t')
     \<longrightarrow> (\<exists>r. getseriesepisodes env series = Inr r))
   \<and> (getseriesepisodes env series = Inr (needed, series', lg) \<longrightarrow>
        (\<exists>per_series. needed = concat per_series
           \<and> list_all2 (\<lambda>ser episodes. \<exists>fetched.
                 get_episodes_by_series_id env (s_id ser) = Inr fetched
                 \<and> list_all2 (\<lambda>v e. e = v\<lparr>e_title := e_title e\<rparr>)
                      (filter (\<lambda>v. e_monitored v \<and> \<not> e_hasFile v \<and> \<not> eps_date env ser v > now env)
                         fetched)
                      episodes)
               series per_series)
        \<and> (\<forall>e\<in>set needed. \<not> e_hasFile e)
        \<and> (\<forall>e\<in>set needed. \<exists>ser\<in>set series. \<exists>fetched. \<exists>v\<in>set fetched.
              get_episodes_by_series_id env (s_id ser) = Inr fetched
              \<and> e = v\<lparr>e_title := e_title e\<rparr> \<and> \<not> eps_date env ser v > now env)
        \<and> (\<forall>ser\<in>set series. \<forall>fetched. get_episodes_by_series_id env (s_id ser) = Inr fetched \<longrightarrow>
              (\<forall>v\<in>set fetched. e_monitored v \<and> \<not> e_hasFile v \<and> e_airDateUtc v = None \<longrightarrow>
                 (\<exists>e\<in>set needed. e = v\<lparr>e_title := e_title e\<rparr>))))
   \<and> (e_airDateUtc v = None \<longrightarrow> eps_date env ser v = now env)
   \<and> (e_airDateUtc v = Some d \<longrightarrow>
        eps_date env ser v = (case s_offset ser of None \<Rightarrow> d | Some off \<Rightarrow> offsethandler d off))"
proof (intro conjI impI)
  assume "(\<forall>ser\<in>set series. \<exists>fetched. get_episodes_by_series_id env (s_id ser) = Inr fetched)
      \<and> (\<forall>match replace t. \<exists>t'. re_sub env match replace t = Inr t')"
  then show "\<exists>r. getseriesepisodes env series = Inr r"
    using pass_result_total [of series env] by (simp add: getseriesepisodes_pass_result)
next
  assume "getseriesepisodes env series = Inr (needed, series', lg)"
  then have pr: "pass_result env series = Inr (needed, series', lg)"
    by (simp add: getseriesepisodes_pass_result)
  from pass_result_lists [OF pr] have nd: "needed = concat (map (needed_for env) series)"
    by blast
  note per = needed_per_series [OF pr]
  from nd per show "\<exists>per_series. needed = concat per_series
           \<and> list_all2 (\<lambda>ser episodes. \<exists>fetched.
                 get_episodes_by_series_id env (s_id ser) = Inr fetched
                 \<and> list_all2 (\<lambda>v e. e = v\<lparr>e_title := e_title e\<rparr>)
                      (filter (\<lambda>v. e_monitored v \<and> \<not> e_hasFile v \<and> \<not> eps_date env ser v > now env)
                         fetched)
                      episodes)
               series per_series"
    by blast
  have each: "\<exists>fetched. get_episodes_by_series_id env (s_id ser) = Inr fetched
            \<and> list_all2 (\<lambda>v e. e = v\<lparr>e_title := e_title e\<rparr>)
                 (filter (\<lambda>v. e_monitored v \<and> \<not> e_hasFile v \<and> \<not> eps_date env ser v > now env) fetched)
                 (needed_for env ser)" if "ser \<in> set series" for ser
    using that by (rule needed_each [OF pr])
  have origin: "\<exists>ser\<in>set series. \<exists>fetched. \<exists>v\<in>set fetched.
      get_episodes_by_series_id env (s_id ser) = Inr fetched
      \<and> e = v\<lparr>e_title := e_title e\<rparr>
      \<and> e_monitored v \<and> \<not> e_hasFile v \<and> \<not> eps_date env ser v > now env" if "e \<in> set needed" for e
  proof -
    from that nd obtain ser where ser: "ser \<in> set series" and e: "e \<in> set (needed_for env ser)"
      by auto
    from each [OF ser] obtain fetched where f: "get_episodes_by_series_id env (s_id ser) = Inr fetched"
      and l: "list_all2 (\<lambda>v e. e = v\<lparr>e_title := e_title e\<rparr>)
                 (filter (\<lambda>v. e_monitored v \<and> \<not> e_hasFile v \<and> \<not> eps_date env ser v > now env) fetched)
                 (needed_for env ser)"
      by blast
    from list_all2_right [OF l e] obtain v where "v \<in> set (filter (\<lambda>v. e_monitored v \<and> \<not> e_hasFile v
        \<and> \<not> eps_date env ser v > now env) fetched)" and ev: "e = v\<lparr>e_title := e_title e\<rparr>"
      by blast
    with ser f show ?thesis
      by auto
  qed
  then show "\<forall>e\<in>set needed. \<exists>ser\<in>set series. \<exists>fetched. \<exists>v\<in>set fetched.
              get_episodes_by_series_id env (s_id ser) = Inr fetched
              \<and> e = v\<lparr>e_title := e_title e\<rparr> \<and> \<not> eps_date env ser v > now env"
    by blast
  show "\<forall>e\<in>set needed. \<not> e_hasFile e"
  proof
    fix e assume "e \<in> set needed"
    from origin [OF this] obtain v where "\<not> e_hasFile v" and ev: "e = v\<lparr>e_title := e_title e\<rparr>"
      by blast
    from ev obtain t where "e = v\<lparr>e_title := t\<rparr>"
      by (rule that)
    with \<open>\<not> e_hasFile v\<close> show "\<not> e_hasFile e"
      by simp
  qed
  show "\<forall>ser\<in>set series. \<forall>fetched. get_episodes_by_series_id env (s_id ser) = Inr fetched \<longrightarrow>
              (\<forall>v\<in>set fetched. e_monitored v \<and> \<not> e_hasFile v \<and> e_airDateUtc v = None \<longrightarrow>
                 (\<exists>e\<in>set needed. e = v\<lparr>e_title := e_title e\<rparr>))"
  proof (intro ballI allI impI)
    fix ser fetched v
    assume ser: "ser \<in> set series" and f: "get_episodes_by_series_id env (s_id ser) = Inr fetched"
      and v: "v \<in> set fetched" and due: "e_monitored v \<and> \<not> e_hasFile v \<and> e_airDateUtc v = None"
    from each [OF ser] f have
      l: "list_all2 (\<lambda>v e. e = v\<lparr>e_title := e_title e\<rparr>)
                 (filter (\<lambda>v. e_monitored v \<and> \<not> e_hasFile v \<and> \<not> eps_date env ser v > now env) fetched)
                 (needed_for env ser)"
      by simp
    from due have "eps_date env ser v = now env"
      by (simp add: eps_date_def)
    with v due have "v \<in> set (filter (\<lambda>v. e_monitored v \<and> \<not> e_hasFile v
        \<and> \<not> eps_date env ser v > now env) fetched)"
      by simp
    from list_all2_left [OF l this] obtain e where
      "e \<in> set (needed_for env ser)" "e = v\<lparr>e_title := e_title e\<rparr>"
      by blast
    with ser nd show "\<exists>e\<in>set needed. e = v\<lparr>e_title := e_title e\<rparr>"
      by auto
  qed
next
  assume "e_airDateUtc v = None"
  then show "eps_date env ser v = now env"
    by (simp add: eps_date_def)
next
  assume "e_airDateUtc v = Some d"
  then show "eps_date env ser v = (case s_offset ser of None \<Rightarrow> d | Some off \<Rightarrow> offsethandler d off)"
    by (simp add: eps_date_def)
qed

theorem need_filter_episodes_witness:
  "getseriesepisodes example_env [example_series, other_series]
     = Inr ([pilot, undated_episode], [example_series],
            [(INFO, Text ''Example Show missing 2 episodes''),
             (INFO, Text ''  1: Example Show - Pilot''),
             (INFO, Text ''  2: Example Show - Special''),
             (INFO, Text ''Other Show no episodes needed'')])
   \<and> (\<exists>r. getseriesepisodes example_env [example_series, other_series] = Inr r)
   \<and> \<not> e_hasFile pilot \<and> \<not> e_hasFile undated_episode
   \<and> (\<exists>e. e \<in> set [pilot, undated_episode] \<and> e = undated_episode\<lparr>e_title := e_title e\<rparr>)
   \<and> eps_date example_env example_series undated_episode = now example_env
   \<and> eps_date example_env example_series unaired_episode = 2000"
proof -
  have collaborators:
    "(\<forall>ser\<in>set [example_series, other_series].
        \<exists>fetched. get_episodes_by_series_id example_env (s_id ser) = Inr fetched)
     \<and> (\<forall>match replace t. \<exists>t'. re_sub example_env match replace t = Inr t')"
    by (simp add: example_env_def example_series_def other_series_def)
  let ?lg = "[(INFO, Text ''Example Show missing 2 episodes''),
             (INFO, Text ''  1: Example Show - Pilot''),
             (INFO, Text ''  2: Example Show - Special''),
             (INFO, Text ''Other Show no episodes needed'')]"
  have run: "getseriesepisodes example_env [example_series, other_series]
     = Inr ([pilot, undated_episode], [example_series], ?lg)"
    by code_simp
  have listing: "get_episodes_by_series_id example_env (s_id example_series)
     = Inr [pilot, unaired_episode, stored_episode, undated_episode]"
    by code_simp
  have due: "e_monitored undated_episode \<and> \<not> e_hasFile undated_episode
      \<and> e_airDateUtc undated_episode = None"
    by code_simp
  have date: "e_airDateUtc unaired_episode = Some 2000" "s_offset example_series = None"
    by code_simp+
  note undated = need_filter_episodes [where env = example_env
      and series = "[example_series, other_series]" and needed = "[pilot, undated_episode]"
      and series' = "[example_series]" and lg = ?lg and v = undated_episode and ser = example_series]
  note unaired = need_filter_episodes [where env = example_env
      and series = "[example_series, other_series]" and needed = "[pilot, undated_episode]"
      and series' = "[example_series]" and lg = ?lg and v = unaired_episode and ser = example_series
      and d = 2000]
  note got = undated [THEN conjunct2, THEN conjunct1, THEN mp, OF run]
  note no_file = got [THEN conjunct2, THEN conjunct1]
  note included = got [THEN conjunct2, THEN conjunct2, THEN conjunct2]
  have "example_series \<in> set [example_series, other_series]"
    by simp
  from bspec [OF included this]
  have "get_episodes_by_series_id example_env (s_id example_series)
          = Inr [pilot, unaired_episode, stored_episode, undated_episode] \<longrightarrow>
        (\<forall>v\<in>set [pilot, unaired_episode, stored_episode, undated_episode].
            e_monitored v \<and> \<not> e_hasFile v \<and> e_airDateUtc v = None \<longrightarrow>
            (\<exists>e\<in>set [pilot, undated_episode]. e = v\<lparr>e_title := e_title e\<rparr>))"
    by (rule spec)
  from mp [OF this listing]
  have each: "\<forall>v\<in>set [pilot, unaired_episode, stored_episode, undated_episode].
            e_monitored v \<and> \<not> e_hasFile v \<and> e_airDateUtc v = None \<longrightarrow>
            (\<exists>e\<in>set [pilot, undated_episode]. e = v\<lparr>e_title := e_title e\<rparr>)" .
  have "undated_episode \<in> set [pilot, unaired_episode, stored_episode, undated_episode]"
    by simp
  from mp [OF bspec [OF each this] due]
  have inc: "\<exists>e\<in>set [pilot, undated_episode]. e = undated_episode\<lparr>e_title := e_title e\<rparr>" .
  from undated due have d1: "eps_date example_env example_series undated_episode = now example_env"
    by (simp only:)
  from unaired date have d2: "eps_date example_env example_series unaired_episode = 2000"
    by (simp only: option.case)
  note returns = undated [THEN conjunct1, THEN mp, OF collaborators]
  have "pilot \<in> set [pilot, undated_episode]" and "undated_episode \<in> set [pilot, undated_episode]"
    by simp_all
  from this [THEN bspec [OF no_file]]
  have stored: "\<not> e_hasFile pilot" "\<not> e_hasFile undated_episode" .
  from inc have inc': "\<exists>e. e \<in> set [pilot, undated_episode] \<and> e = undated_episode\<lparr>e_title := e_title e\<rparr>"
    by (simp only: Bex_def)
  from run returns stored inc' d1 d2 show ?thesis
    by (intro conjI)
qed

text \<open>
  C6. Whenever the listings and the title rewrites do not raise, the need filter returns.
  When it returns, the list of series is the list it was given without the series that
  have no needed episode: such a series is not in it, every series in it has at least
  one needed episode, and these episodes are among those returned. That list and the
  needed episodes are what \<open>main\<close> hands to \<open>download\<close>.
\<close>

theorem series_without_needed_removed:
  "((\<forall>ser\<in>set series. \<exists>fetched. get_episodes_by_series_id env (s_id ser) = Inr fetched)
      \<and> (\<forall>match replace t. \<exists>t'. re_sub env match replace t = Inr t')
     \<longrightarrow> (\<exists>r. getseriesepisodes env series = Inr r))
   \<and> (getseriesepisodes env series = Inr (needed, series', lg) \<longrightarrow>
        needed = concat (map (needed_for env) series)
        \<and> series' = filter (\<lambda>ser. needed_for env ser \<noteq> []) series
        \<and> (\<forall>ser\<in>set series. needed_for env ser = [] \<longrightarrow> ser \<notin> set series')
        \<and> (\<forall>ser\<in>set series'. ser \<in> set series \<and> needed_for env ser \<noteq> []
              \<and> set (needed_for env ser) \<subseteq> set needed))
   \<and> (filterseries remote wanted = (series, lg1)
        \<and> getseriesepisodes env series = Inr (needed, series', lg) \<longrightarrow>
        main env remote wanted
          = (case download env series' needed of
               (lg3, Some err) \<Rightarrow> (lg1 @ lg @ lg3, Some err)
             | (lg3, None) \<Rightarrow> (lg1 @ lg @ lg3 @ [(INFO, Text ''Waiting...'')], None)))"
proof (intro conjI impI)
  assume "(\<forall>ser\<in>set series. \<exists>fetched. get_episodes_by_series_id env (s_id ser) = Inr fetched)
      \<and> (\<forall>match replace t. \<exists>t'. re_sub env match replace t = Inr t')"
  then show "\<exists>r. getseriesepisodes env series = Inr r"
    using pass_result_total [of series env] by (simp add: getseriesepisodes_pass_result)
next
  assume "getseriesepisodes env series = Inr (needed, series', lg)"
  then have "pass_result env series = Inr (needed, series', lg)"
    by (simp add: getseriesepisodes_pass_result)
  from pass_result_lists [OF this]
  have nd: "needed = concat (map (needed_for env) series)"
    and ss: "series' = filter (\<lambda>ser. needed_for env ser \<noteq> []) series"
    by blast+
  show "needed = concat (map (needed_for env) series)"
    by (rule nd)
  show "series' = filter (\<lambda>ser. needed_for env ser \<noteq> []) series"
    by (rule ss)
  show "\<forall>ser\<in>set series. needed_for env ser = [] \<longrightarrow> ser \<notin> set series'"
    by (simp add: ss)
  show "\<forall>ser\<in>set series'. ser \<in> set series \<and> needed_for env ser \<noteq> []
              \<and> set (needed_for env ser) \<subseteq> set needed"
    by (auto simp: ss nd)
next
  assume "filterseries remote wanted = (series, lg1)
        \<and> getseriesepisodes env series = Inr (needed, series', lg)"
  then show "main env remote wanted
          = (case download env series' needed of
               (lg3, Some err) \<Rightarrow> (lg1 @ lg @ lg3, Some err)
             | (lg3, None) \<Rightarrow> (lg1 @ lg @ lg3 @ [(INFO, Text ''Waiting...'')], None))"
    by (simp add: main_def)
qed

theorem series_without_needed_removed_witness:
  "(\<exists>r. getseriesepisodes example_env [example_series, other_series] = Inr r)
   \<and> needed_for example_env other_series = []
   \<and> [example_series] = filter (\<lambda>ser. needed_for example_env ser \<noteq> []) [example_series, other_series]
   \<and> other_series \<notin> set [example_series]
   \<and> fst (main example_env [example_series, other_series] [example_wanted, example_wanted\<lparr>w_title := ''Other Show''\<rparr>])
       = snd (filterseries [example_series, other_series] [example_wanted, example_wanted\<lparr>w_title := ''Other Show''\<rparr>])
         @ [(INFO, Text ''Example Show missing 2 episodes''),
            (INFO, Text ''  1: Example Show - Pilot''),
            (INFO, Text ''  2: Example Show - Special''),
            (INFO, Text ''Other Show no episodes needed'')]
         @ fst (download example_env [example_series] [pilot, undated_episode])
         @ [(INFO, Text ''Waiting...'')]"
proof -
  let ?lg = "[(INFO, Text ''Example Show missing 2 episodes''),
             (INFO, Text ''  1: Example Show - Pilot''),
             (INFO, Text ''  2: Example Show - Special''),
             (INFO, Text ''Other Show no episodes needed'')]"
  let ?wanted = "[example_wanted, example_wanted\<lparr>w_title := ''Other Show''\<rparr>]"
  have collaborators:
    "(\<forall>ser\<in>set [example_series, other_series].
        \<exists>fetched. get_episodes_by_series_id example_env (s_id ser) = Inr fetched)
     \<and> (\<forall>match replace t. \<exists>t'. re_sub example_env match replace t = Inr t')"
    by (simp add: example_env_def example_series_def other_series_def)
  have run: "getseriesepisodes example_env [example_series, other_series]
     = Inr ([pilot, undated_episode], [example_series], ?lg)"
    by code_simp
  have none: "needed_for example_env other_series = []"
    by code_simp
  have resolved: "filterseries [example_series, other_series] ?wanted = ([example_series, other_series], [])"
    by code_simp
  have ok: "snd (download example_env [example_series] [pilot, undated_episode]) = None"
    by code_simp
  note removed = series_without_needed_removed [where env = example_env
      and series = "[example_series, other_series]" and needed = "[pilot, undated_episode]"
      and series' = "[example_series]" and lg = ?lg and remote = "[example_series, other_series]"
      and wanted = ?wanted and ?lg1.0 = "[]"]
  note returns = removed [THEN conjunct1, THEN mp, OF collaborators]
  note got = removed [THEN conjunct2, THEN conjunct1, THEN mp, OF run]
  note kept = got [THEN conjunct2, THEN conjunct1]
  have "other_series \<in> set [example_series, other_series]"
    by simp
  from mp [OF bspec [OF got [THEN conjunct2, THEN conjunct2, THEN conjunct1] this] none]
  have gone: "other_series \<notin> set [example_series]" .
  from removed [THEN conjunct2, THEN conjunct2, THEN mp, OF conjI [OF resolved run]] ok resolved
  have pass: "fst (main example_env [example_series, other_series] ?wanted)
       = snd (filterseries [example_series, other_series] ?wanted) @ ?lg
         @ fst (download example_env [example_series] [pilot, undated_episode])
         @ [(INFO, Text ''Waiting...'')]"
    by (cases "download example_env [example_series] [pilot, undated_episode]") simp
  from returns none kept gone pass show ?thesis
    by (intro conjI)
qed

end
